theory Spec2Isabelle
  imports Main "HOL-Library.Word"
begin

section \<open>FHEStaking: an encrypted staking ledger\<close>

text \<open>
  A shallow embedding of \<^verbatim>\<open>contracts/FHEStaking.sol\<close>. The contract keeps five
  mappings keyed by the caller's address; three of them hold handles of encrypted
  64-bit values (\<^verbatim>\<open>euint64\<close>), two hold plaintext. Every external function either
  runs to completion or reverts, in which case the EVM discards all of its effects.
\<close>

subsection \<open>Types\<close>

type_synonym address = nat

text \<open>A \<^verbatim>\<open>euint64\<close> is a handle (a \<^verbatim>\<open>bytes32\<close>); handle \<open>0\<close> is the uninitialised one.\<close>

type_synonym euint64 = nat

type_synonym uint64 = "64 word"

text \<open>\<^verbatim>\<open>uint256\<close> values (timestamps) are naturals below \<open>2 ^ 256\<close>, with Solidity's
  checked arithmetic written out in \<open>checked_sub\<close>, \<open>checked_mul\<close> and \<open>checked_add\<close>.\<close>

type_synonym uint256 = nat

datatype error = ALREADY_CLAIMED | CLAIM_REQUIRED | InvalidProof | Panic

datatype event =
    TokensClaimed address uint64
  | TokensStaked address
  | TokensUnstaked address
  | InterestClaimed address uint256

text \<open>A log, kept beside the contract's storage, of the order in which handles are
  written into account storage and decrypt-grants are issued: one entry per storage
  write of a handle and one per grant.\<close>

datatype effect = Stored address euint64 | Granted euint64 address

record state =
  liquidBalances :: "address \<Rightarrow> euint64"
  stakedBalances :: "address \<Rightarrow> euint64"
  pendingInterest :: "address \<Rightarrow> euint64"
  lastAccrualTimestamp :: "address \<Rightarrow> uint256"
  hasClaimed :: "address \<Rightarrow> bool"
  this_address :: address
  plain :: "euint64 \<Rightarrow> uint64"
  acl :: "euint64 \<Rightarrow> address set"
  next_handle :: euint64
  events :: "event list"
  effects :: "effect list"

text \<open>The state of a freshly deployed contract at address \<open>a\<close>: every mapping at its
  default, no ciphertext allocated, nothing granted.\<close>

definition init :: "address \<Rightarrow> state" where
  "init a = \<lparr> liquidBalances = (\<lambda>_. 0), stakedBalances = (\<lambda>_. 0), pendingInterest = (\<lambda>_. 0),
     lastAccrualTimestamp = (\<lambda>_. 0), hasClaimed = (\<lambda>_. False), this_address = a,
     plain = (\<lambda>_. 0), acl = (\<lambda>_. {}), next_handle = 1, events = [], effects = [] \<rparr>"

definition INITIAL_GRANT :: uint64 where
  "INITIAL_GRANT = 1000"

abbreviation one_day :: uint256 where
  "one_day \<equiv> 86400"

subsection \<open>Checked \<^verbatim>\<open>uint256\<close> arithmetic (Solidity 0.8)\<close>

definition checked_sub :: "uint256 \<Rightarrow> uint256 \<Rightarrow> error + uint256" where
  "checked_sub a b = (if b \<le> a then Inr (a - b) else Inl Panic)"

definition checked_mul :: "uint256 \<Rightarrow> uint256 \<Rightarrow> error + uint256" where
  "checked_mul a b = (if a * b < 2 ^ 256 then Inr (a * b) else Inl Panic)"

definition checked_add :: "uint256 \<Rightarrow> uint256 \<Rightarrow> error + uint256" where
  "checked_add a b = (if a + b < 2 ^ 256 then Inr (a + b) else Inl Panic)"

subsection \<open>The encrypted-arithmetic library\<close>

text \<open>
  The contract calls \<^verbatim>\<open>FHE.asEuint64\<close>, \<^verbatim>\<open>FHE.fromExternal\<close>, \<^verbatim>\<open>FHE.add\<close>,
  \<^verbatim>\<open>FHE.sub\<close>, \<^verbatim>\<open>FHE.mul\<close>, \<^verbatim>\<open>FHE.div\<close>, \<^verbatim>\<open>FHE.allowThis\<close> and \<^verbatim>\<open>FHE.allow\<close>
  of the library \<^verbatim>\<open>@fhevm/solidity\<close>, which is imported and not part of the sources.
  Its operations are modelled from sections 4.1, 4.2 and 6 of the specification: the
  plaintext behind a handle is kept in \<open>plain\<close>, the set of principals that may decrypt
  a handle in \<open>acl\<close>.
\<close>

text \<open>Modelled from the spec: the allocation of a handle by the absent library; every
  operation "produces a fresh handle" (section 6) for its result. The library itself
  derives a handle from the operation and its operands, so that equal constants may
  share a handle; the statements about grants below hold from every state and do not
  rely on the handle being new.\<close>

definition fresh :: "uint64 \<Rightarrow> state \<Rightarrow> euint64 \<times> state" where
  "fresh v s = (next_handle s,
     s\<lparr>plain := (plain s)(next_handle s := v), next_handle := Suc (next_handle s)\<rparr>)"

text \<open>Modelled from the spec: \<^verbatim>\<open>FHE.asEuint64\<close> of the absent library, the
  \<open>encryptConstant\<close> of section 4.1.\<close>

definition FHE_asEuint64 :: "uint64 \<Rightarrow> state \<Rightarrow> euint64 \<times> state" where
  "FHE_asEuint64 v s = fresh v s"

text \<open>Modelled from the spec: \<^verbatim>\<open>FHE.add\<close> of the absent library, addition with
  "fixed-width (64-bit unsigned) semantics" (section 6).\<close>

definition FHE_add :: "euint64 \<Rightarrow> euint64 \<Rightarrow> state \<Rightarrow> euint64 \<times> state" where
  "FHE_add a b s = fresh (plain s a + plain s b) s"

text \<open>Modelled from the spec: \<^verbatim>\<open>FHE.sub\<close> of the absent library, subtraction with
  fixed-width 64-bit unsigned semantics. Sections 7 and 9 leave the policy on underflow
  to the library (clamp at zero or modular wrap-around); the model takes modular
  wrap-around, the unchecked arithmetic of the library.\<close>

definition FHE_sub :: "euint64 \<Rightarrow> euint64 \<Rightarrow> state \<Rightarrow> euint64 \<times> state" where
  "FHE_sub a b s = fresh (plain s a - plain s b) s"

text \<open>Modelled from the spec: \<^verbatim>\<open>FHE.mul\<close> of the absent library, multiplication with
  fixed-width 64-bit unsigned semantics.\<close>

definition FHE_mul :: "euint64 \<Rightarrow> euint64 \<Rightarrow> state \<Rightarrow> euint64 \<times> state" where
  "FHE_mul a b s = fresh (plain s a * plain s b) s"

text \<open>Modelled from the spec: \<^verbatim>\<open>FHE.div\<close> of the absent library by a plaintext
  constant, the \<open>divConstant\<close> of section 4.1: "integer division, truncating".\<close>

definition FHE_div :: "euint64 \<Rightarrow> uint64 \<Rightarrow> state \<Rightarrow> euint64 \<times> state" where
  "FHE_div a c s = fresh (plain s a div c) s"

text \<open>An external input (\<^verbatim>\<open>externalEuint64\<close> with its \<^verbatim>\<open>bytes proof\<close>) is a ciphertext
  of some plaintext together with a proof; the pair is modelled by that plaintext and by
  whether the proof verifies.\<close>

record externalEuint64 =
  ext_plain :: uint64
  proof_ok :: bool

text \<open>Modelled from the spec: \<^verbatim>\<open>FHE.fromExternal\<close> of the absent library, the
  \<open>fromExternalInput\<close> of section 4.1, which "fails with InvalidProof" on a proof that
  does not verify.\<close>

definition FHE_fromExternal :: "externalEuint64 \<Rightarrow> state \<Rightarrow> error + euint64 \<times> state" where
  "FHE_fromExternal x s = (if proof_ok x then Inr (fresh (ext_plain x) s) else Inl InvalidProof)"

text \<open>Modelled from the spec: \<^verbatim>\<open>FHE.allow\<close> of the absent library, the \<open>grant\<close> of
  section 4.2: it "extends the decrypt-authorization set for that handle" and is
  idempotent.\<close>

definition FHE_allow :: "euint64 \<Rightarrow> address \<Rightarrow> state \<Rightarrow> state" where
  "FHE_allow h p s = s\<lparr>acl := (acl s)(h := insert p (acl s h)),
                        effects := effects s @ [Granted h p]\<rparr>"

text \<open>Modelled from the spec: \<^verbatim>\<open>FHE.allowThis\<close> of the absent library, the grant to
  the contract's own address.\<close>

definition FHE_allowThis :: "euint64 \<Rightarrow> state \<Rightarrow> state" where
  "FHE_allowThis h s = FHE_allow h (this_address s) s"

subsection \<open>Storage writes and events\<close>

definition set_liquidBalances :: "address \<Rightarrow> euint64 \<Rightarrow> state \<Rightarrow> state" where
  "set_liquidBalances user h s =
     s\<lparr>liquidBalances := (liquidBalances s)(user := h), effects := effects s @ [Stored user h]\<rparr>"

definition set_stakedBalances :: "address \<Rightarrow> euint64 \<Rightarrow> state \<Rightarrow> state" where
  "set_stakedBalances user h s =
     s\<lparr>stakedBalances := (stakedBalances s)(user := h), effects := effects s @ [Stored user h]\<rparr>"

definition set_pendingInterest :: "address \<Rightarrow> euint64 \<Rightarrow> state \<Rightarrow> state" where
  "set_pendingInterest user h s =
     s\<lparr>pendingInterest := (pendingInterest s)(user := h), effects := effects s @ [Stored user h]\<rparr>"

definition set_lastAccrualTimestamp :: "address \<Rightarrow> uint256 \<Rightarrow> state \<Rightarrow> state" where
  "set_lastAccrualTimestamp user t s =
     s\<lparr>lastAccrualTimestamp := (lastAccrualTimestamp s)(user := t)\<rparr>"

definition set_hasClaimed :: "address \<Rightarrow> bool \<Rightarrow> state \<Rightarrow> state" where
  "set_hasClaimed user b s = s\<lparr>hasClaimed := (hasClaimed s)(user := b)\<rparr>"

definition emit :: "event \<Rightarrow> state \<Rightarrow> state" where
  "emit e s = s\<lparr>events := events s @ [e]\<rparr>"

subsection \<open>The contract\<close>

text \<open>\<^verbatim>\<open>_allowValue\<close>: grant the contract itself, then the user.\<close>

definition allowValue :: "euint64 \<Rightarrow> address \<Rightarrow> state \<Rightarrow> state" where
  "allowValue v user s = FHE_allow v user (FHE_allowThis v s)"

text \<open>\<^verbatim>\<open>_settleRewards\<close>; \<open>now\<close> is \<^verbatim>\<open>block.timestamp\<close>. The result is the number of
  elapsed days and the new state.\<close>

definition settleRewards :: "address \<Rightarrow> uint256 \<Rightarrow> state \<Rightarrow> error + uint256 \<times> state" where
  "settleRewards user now s =
    (let lastTimestamp = lastAccrualTimestamp s user in
     if lastTimestamp = 0 then Inr (0, set_lastAccrualTimestamp user now s)
     else
       case checked_sub now lastTimestamp of
         Inl e \<Rightarrow> Inl e
       | Inr diff \<Rightarrow>
           let elapsedDays = diff div one_day in
           if elapsedDays = 0 then Inr (0, s)
           else
             let stakeAmount = stakedBalances s user in
             case FHE_asEuint64 (of_nat elapsedDays) s of (daysCount, s1) \<Rightarrow>
             case FHE_mul stakeAmount daysCount s1 of (accrued, s2) \<Rightarrow>
             case FHE_div accrued 100 s2 of (accrued', s3) \<Rightarrow>
             case FHE_add (pendingInterest s3 user) accrued' s3 of (updatedRewards, s4) \<Rightarrow>
             let s5 = set_pendingInterest user updatedRewards s4;
                 s6 = allowValue updatedRewards user s5
             in
             case checked_mul elapsedDays one_day of
               Inl e \<Rightarrow> Inl e
             | Inr adv \<Rightarrow>
                 case checked_add lastTimestamp adv of
                   Inl e \<Rightarrow> Inl e
                 | Inr t \<Rightarrow> Inr (elapsedDays, set_lastAccrualTimestamp user t s6))"

definition claimInitial :: "address \<Rightarrow> uint256 \<Rightarrow> state \<Rightarrow> error + state" where
  "claimInitial user now s =
    (if hasClaimed s user then Inl ALREADY_CLAIMED
     else
       case FHE_asEuint64 INITIAL_GRANT s of (grantAmount, s1) \<Rightarrow>
       let s2 = set_liquidBalances user grantAmount s1;
           s3 = allowValue grantAmount user s2
       in
       case FHE_asEuint64 0 s3 of (zeroValue, s4) \<Rightarrow>
       let s5 = set_stakedBalances user zeroValue s4;
           s6 = allowValue zeroValue user s5;
           s7 = set_pendingInterest user zeroValue s6;
           s8 = allowValue zeroValue user s7;
           s9 = set_hasClaimed user True s8;
           s10 = set_lastAccrualTimestamp user now s9
       in Inr (emit (TokensClaimed user INITIAL_GRANT) s10))"

definition stake :: "address \<Rightarrow> uint256 \<Rightarrow> externalEuint64 \<Rightarrow> state \<Rightarrow> error + state" where
  "stake user now encryptedAmount s =
    (if \<not> hasClaimed s user then Inl CLAIM_REQUIRED
     else
       case settleRewards user now s of
         Inl e \<Rightarrow> Inl e
       | Inr (daysAccrued, s1) \<Rightarrow>
           case FHE_fromExternal encryptedAmount s1 of
             Inl e \<Rightarrow> Inl e
           | Inr (amount, s2) \<Rightarrow>
               case FHE_sub (liquidBalances s2 user) amount s2 of (updatedBalance, s3) \<Rightarrow>
               let s4 = set_liquidBalances user updatedBalance s3;
                   s5 = allowValue updatedBalance user s4
               in
               case FHE_add (stakedBalances s5 user) amount s5 of (updatedStake, s6) \<Rightarrow>
               let s7 = set_stakedBalances user updatedStake s6;
                   s8 = allowValue updatedStake user s7;
                   s9 = set_lastAccrualTimestamp user now s8
               in Inr (emit (TokensStaked user) s9))"

definition unstake :: "address \<Rightarrow> uint256 \<Rightarrow> externalEuint64 \<Rightarrow> state \<Rightarrow> error + state" where
  "unstake user now encryptedAmount s =
    (if \<not> hasClaimed s user then Inl CLAIM_REQUIRED
     else
       case settleRewards user now s of
         Inl e \<Rightarrow> Inl e
       | Inr (daysAccrued, s1) \<Rightarrow>
           case FHE_fromExternal encryptedAmount s1 of
             Inl e \<Rightarrow> Inl e
           | Inr (amount, s2) \<Rightarrow>
               case FHE_sub (stakedBalances s2 user) amount s2 of (updatedStake, s3) \<Rightarrow>
               let s4 = set_stakedBalances user updatedStake s3;
                   s5 = allowValue updatedStake user s4
               in
               case FHE_add (liquidBalances s5 user) amount s5 of (updatedBalance, s6) \<Rightarrow>
               let s7 = set_liquidBalances user updatedBalance s6;
                   s8 = allowValue updatedBalance user s7;
                   s9 = set_lastAccrualTimestamp user now s8
               in Inr (emit (TokensUnstaked user) s9))"

definition claimInterest :: "address \<Rightarrow> uint256 \<Rightarrow> state \<Rightarrow> error + state" where
  "claimInterest user now s =
    (if \<not> hasClaimed s user then Inl CLAIM_REQUIRED
     else
       case settleRewards user now s of
         Inl e \<Rightarrow> Inl e
       | Inr (daysAccrued, s1) \<Rightarrow>
           let rewards = pendingInterest s1 user in
           case FHE_add (liquidBalances s1 user) rewards s1 of (updatedBalance, s2) \<Rightarrow>
           let s3 = set_liquidBalances user updatedBalance s2;
               s4 = allowValue updatedBalance user s3
           in
           case FHE_asEuint64 0 s4 of (zeroValue, s5) \<Rightarrow>
           let s6 = set_pendingInterest user zeroValue s5;
               s7 = allowValue zeroValue user s6;
               s8 = set_lastAccrualTimestamp user now s7
           in Inr (emit (InterestClaimed user daysAccrued) s8))"

definition getInitialGrant :: uint64 where
  "getInitialGrant = INITIAL_GRANT"

definition getAccountState ::
  "state \<Rightarrow> address \<Rightarrow> euint64 \<times> euint64 \<times> euint64 \<times> uint256 \<times> bool" where
  "getAccountState s user =
     (liquidBalances s user, stakedBalances s user, pendingInterest s user,
      lastAccrualTimestamp s user, hasClaimed s user)"

subsection \<open>Transactions\<close>

text \<open>A call carries \<^verbatim>\<open>msg.sender\<close> and \<^verbatim>\<open>block.timestamp\<close>. A transaction that
  reverts leaves the state as it was.\<close>

datatype call =
    ClaimInitial address uint256
  | Stake address uint256 externalEuint64
  | Unstake address uint256 externalEuint64
  | ClaimInterest address uint256

fun exec :: "call \<Rightarrow> state \<Rightarrow> error + state" where
  "exec (ClaimInitial user now) s = claimInitial user now s"
| "exec (Stake user now x) s = stake user now x s"
| "exec (Unstake user now x) s = unstake user now x s"
| "exec (ClaimInterest user now) s = claimInterest user now s"

fun sender :: "call \<Rightarrow> address" where
  "sender (ClaimInitial user now) = user"
| "sender (Stake user now x) = user"
| "sender (Unstake user now x) = user"
| "sender (ClaimInterest user now) = user"

fun timestamp :: "call \<Rightarrow> uint256" where
  "timestamp (ClaimInitial user now) = now"
| "timestamp (Stake user now x) = now"
| "timestamp (Unstake user now x) = now"
| "timestamp (ClaimInterest user now) = now"

definition transact :: "call \<Rightarrow> state \<Rightarrow> state" where
  "transact c s = (case exec c s of Inl e \<Rightarrow> s | Inr s' \<Rightarrow> s')"

fun run :: "call list \<Rightarrow> state \<Rightarrow> state" where
  "run [] s = s"
| "run (c # cs) s = run cs (transact c s)"

subsection \<open>Plaintext views\<close>

definition liquid :: "state \<Rightarrow> address \<Rightarrow> uint64" where
  "liquid s user = plain s (liquidBalances s user)"

definition staked :: "state \<Rightarrow> address \<Rightarrow> uint64" where
  "staked s user = plain s (stakedBalances s user)"

definition pending :: "state \<Rightarrow> address \<Rightarrow> uint64" where
  "pending s user = plain s (pendingInterest s user)"

text \<open>Every handle held in account storage has been allocated.\<close>

definition allocated :: "state \<Rightarrow> bool" where
  "allocated s \<longleftrightarrow> (\<forall>u. liquidBalances s u < next_handle s \<and> stakedBalances s u < next_handle s
                        \<and> pendingInterest s u < next_handle s)"

subsection \<open>Quantities and invariants used in the statements\<close>

text \<open>The plaintext of the local variable \<^verbatim>\<open>accrued\<close> that \<^verbatim>\<open>_settleRewards\<close> adds to
  the pending interest of \<open>user\<close> at time \<open>now\<close>; nothing is added on its two early
  returns.\<close>

definition accruedInterest :: "state \<Rightarrow> address \<Rightarrow> uint256 \<Rightarrow> uint64" where
  "accruedInterest s user now =
     (let lastTimestamp = lastAccrualTimestamp s user; elapsedDays = (now - lastTimestamp) div one_day in
      if lastTimestamp = 0 \<or> elapsedDays = 0 then 0
      else (staked s user * of_nat elapsedDays) div 100)"

text \<open>The plaintext total held by an account, in 64-bit unsigned arithmetic.\<close>

definition total :: "state \<Rightarrow> address \<Rightarrow> uint64" where
  "total s user = liquid s user + staked s user + pending s user"

text \<open>The interest that a call credits to \<open>user\<close>: what the settlement inside a
  successful \<open>stake\<close>, \<open>unstake\<close> or \<open>claimInterest\<close> of that user accrues.\<close>

fun credited :: "call \<Rightarrow> state \<Rightarrow> address \<Rightarrow> uint64" where
  "credited (ClaimInitial u now) s user = 0"
| "credited c s user =
     (case exec c s of Inl e \<Rightarrow> 0
      | Inr s' \<Rightarrow> if user = sender c then accruedInterest s user (timestamp c) else 0)"

text \<open>All interest ever accrued for \<open>user\<close> while the calls \<open>cs\<close> run from \<open>s\<close>.\<close>

fun total_accrued :: "call list \<Rightarrow> state \<Rightarrow> address \<Rightarrow> uint64" where
  "total_accrued [] s user = 0"
| "total_accrued (c # cs) s user = credited c s user + total_accrued cs (transact c s) user"

text \<open>The shape of what a call of \<open>u\<close> appends to the log: each write of a handle
  into the storage of \<open>u\<close> is followed at once by the grant of that handle to the contract
  \<open>this\<close> and then to \<open>u\<close>, and there is no other entry.\<close>

fun stored_then_granted :: "address \<Rightarrow> address \<Rightarrow> effect list \<Rightarrow> bool" where
  "stored_then_granted this u [] = True"
| "stored_then_granted this u (Stored v h # Granted h1 p1 # Granted h2 p2 # es) =
     (v = u \<and> h1 = h \<and> p1 = this \<and> h2 = h \<and> p2 = u \<and> stored_then_granted this u es)"
| "stored_then_granted this u es = False"

text \<open>The entries that a step from \<open>s\<close> to \<open>s'\<close> appended to the log.\<close>

definition call_log :: "state \<Rightarrow> state \<Rightarrow> effect list" where
  "call_log s s' = drop (length (effects s)) (effects s')"

text \<open>A step of \<open>u\<close> from \<open>s\<close> to \<open>s'\<close> that appends \<open>es\<close>: the grants of \<open>s'\<close> are those
  of \<open>s\<close> and those of \<open>es\<close>, and a stored handle that changed was written in \<open>es\<close>.\<close>

definition grants_step :: "address \<Rightarrow> effect list \<Rightarrow> state \<Rightarrow> state \<Rightarrow> bool" where
  "grants_step u es s s' \<longleftrightarrow>
     effects s' = effects s @ es \<and>
     stored_then_granted (this_address s) u es \<and>
     (\<forall>h. acl s' h = acl s h \<union> {p. Granted h p \<in> set es}) \<and>
     this_address s' = this_address s \<and>
     (\<forall>v. (liquidBalances s' v = liquidBalances s v \<or> Stored v (liquidBalances s' v) \<in> set es) \<and>
          (stakedBalances s' v = stakedBalances s v \<or> Stored v (stakedBalances s' v) \<in> set es) \<and>
          (pendingInterest s' v = pendingInterest s v \<or> Stored v (pendingInterest s' v) \<in> set es))"

text \<open>The grant discipline on stored handles: each handle held by a claimed account is
  granted to the contract and to the owner, and an account is granted a handle only if
  that handle was written into its own storage.\<close>

definition owners_granted :: "state \<Rightarrow> bool" where
  "owners_granted s \<longleftrightarrow>
     (\<forall>u. hasClaimed s u \<longrightarrow>
        this_address s \<in> acl s (liquidBalances s u) \<and> u \<in> acl s (liquidBalances s u) \<and>
        this_address s \<in> acl s (stakedBalances s u) \<and> u \<in> acl s (stakedBalances s u) \<and>
        this_address s \<in> acl s (pendingInterest s u) \<and> u \<in> acl s (pendingInterest s u)) \<and>
     (\<forall>h p. p \<in> acl s h \<longrightarrow> p = this_address s \<or> Stored p h \<in> set (effects s))"

text \<open>Replaying the writes and grants of a call in order from the grants \<open>A\<close> held
  before it: is every handle, at the moment it is written into the storage of \<open>u\<close>,
  granted to exactly the contract \<open>this\<close> and \<open>u\<close>?\<close>

fun granted_when_stored :: "address \<Rightarrow> (euint64 \<Rightarrow> address set) \<Rightarrow> effect list \<Rightarrow> bool" where
  "granted_when_stored this A [] = True"
| "granted_when_stored this A (Granted h p # es) =
     granted_when_stored this (A(h := insert p (A h))) es"
| "granted_when_stored this A (Stored u h # es) =
     (A h = {this, u} \<and> granted_when_stored this A es)"

subsection \<open>Straight-line segments of the contract\<close>

text \<open>The code of each external function after its guard and its settlement, and the
  accrual branch of \<^verbatim>\<open>_settleRewards\<close>, as state transformers; \<open>claimInitial_eq\<close>,
  \<open>stake_eq\<close>, \<open>unstake_eq\<close>, \<open>claimInterest_eq\<close> and \<open>settle_cases\<close> relate them
  to the functions above.\<close>

definition accrue :: "address \<Rightarrow> uint256 \<Rightarrow> state \<Rightarrow> state" where
  "accrue user elapsedDays s =
     (case FHE_asEuint64 (of_nat elapsedDays) s of (daysCount, s1) \<Rightarrow>
      case FHE_mul (stakedBalances s user) daysCount s1 of (product, s2) \<Rightarrow>
      case FHE_div product 100 s2 of (hundredth, s3) \<Rightarrow>
      case FHE_add (pendingInterest s3 user) hundredth s3 of (updatedRewards, s4) \<Rightarrow>
        allowValue updatedRewards user (set_pendingInterest user updatedRewards s4))"

definition claimInitial_body :: "address \<Rightarrow> uint256 \<Rightarrow> state \<Rightarrow> state" where
  "claimInitial_body user now s =
     (case FHE_asEuint64 INITIAL_GRANT s of (grantAmount, s1) \<Rightarrow>
      case FHE_asEuint64 0 (allowValue grantAmount user (set_liquidBalances user grantAmount s1))
      of (zeroValue, s4) \<Rightarrow>
        emit (TokensClaimed user INITIAL_GRANT)
          (set_lastAccrualTimestamp user now
            (set_hasClaimed user True
              (allowValue zeroValue user
                (set_pendingInterest user zeroValue
                  (allowValue zeroValue user
                    (set_stakedBalances user zeroValue s4)))))))"

definition stake_body :: "address \<Rightarrow> uint256 \<Rightarrow> uint64 \<Rightarrow> state \<Rightarrow> state" where
  "stake_body user now v s1 =
     (case fresh v s1 of (amount, s2) \<Rightarrow>
      case FHE_sub (liquidBalances s2 user) amount s2 of (updatedBalance, s3) \<Rightarrow>
      let s5 = allowValue updatedBalance user (set_liquidBalances user updatedBalance s3) in
      case FHE_add (stakedBalances s5 user) amount s5 of (updatedStake, s6) \<Rightarrow>
        emit (TokensStaked user)
          (set_lastAccrualTimestamp user now
            (allowValue updatedStake user (set_stakedBalances user updatedStake s6))))"

definition unstake_body :: "address \<Rightarrow> uint256 \<Rightarrow> uint64 \<Rightarrow> state \<Rightarrow> state" where
  "unstake_body user now v s1 =
     (case fresh v s1 of (amount, s2) \<Rightarrow>
      case FHE_sub (stakedBalances s2 user) amount s2 of (updatedStake, s3) \<Rightarrow>
      let s5 = allowValue updatedStake user (set_stakedBalances user updatedStake s3) in
      case FHE_add (liquidBalances s5 user) amount s5 of (updatedBalance, s6) \<Rightarrow>
        emit (TokensUnstaked user)
          (set_lastAccrualTimestamp user now
            (allowValue updatedBalance user (set_liquidBalances user updatedBalance s6))))"

definition claimInterest_body :: "address \<Rightarrow> uint256 \<Rightarrow> uint256 \<Rightarrow> state \<Rightarrow> state" where
  "claimInterest_body user now daysAccrued s1 =
     (case FHE_add (liquidBalances s1 user) (pendingInterest s1 user) s1 of (updatedBalance, s2) \<Rightarrow>
      case FHE_asEuint64 0 (allowValue updatedBalance user (set_liquidBalances user updatedBalance s2))
      of (zeroValue, s5) \<Rightarrow>
        emit (InterestClaimed user daysAccrued)
          (set_lastAccrualTimestamp user now
            (allowValue zeroValue user (set_pendingInterest user zeroValue s5))))"

subsection \<open>Sample states\<close>

text \<open>Account \<open>7\<close> of a contract deployed at address \<open>99\<close>: after its claim at time
  \<open>10\<close>; after it staked \<open>500\<close>; after it staked \<open>2 ^ 63\<close> instead.\<close>

definition demo_claimed :: state where
  "demo_claimed = run [ClaimInitial 7 10] (init 99)"

definition demo_staked :: state where
  "demo_staked = run [ClaimInitial 7 10, Stake 7 10 \<lparr>ext_plain = 500, proof_ok = True\<rparr>] (init 99)"

definition demo_large :: state where
  "demo_large =
     run [ClaimInitial 7 10, Stake 7 10 \<lparr>ext_plain = 9223372036854775808, proof_ok = True\<rparr>] (init 99)"

text \<open>The scenario of the test suite: claim, stake \<open>500\<close>, claim the interest three
  days later, with a reverting second claim in between.\<close>

definition demo_calls :: "call list" where
  "demo_calls = [ClaimInitial 7 10, Stake 7 10 \<lparr>ext_plain = 500, proof_ok = True\<rparr>,
                 ClaimInitial 7 11, ClaimInterest 7 259210]"

text \<open>The state \<open>demo_claimed\<close> with a library that is about to return again the
  handles it returned for the constants of the first claim, as a library that derives
  handles from the operation and its operands does.\<close>

definition demo_shared :: state where
  "demo_shared = demo_claimed\<lparr>next_handle := 1\<rparr>"

section \<open>Auxiliary facts\<close>

lemmas prim_defs = fresh_def FHE_asEuint64_def FHE_add_def FHE_sub_def FHE_mul_def FHE_div_def
  FHE_fromExternal_def FHE_allow_def FHE_allowThis_def set_liquidBalances_def set_stakedBalances_def
  set_pendingInterest_def set_lastAccrualTimestamp_def set_hasClaimed_def emit_def allowValue_def

lemmas checked_defs = checked_sub_def checked_mul_def checked_add_def

lemmas view_defs = liquid_def staked_def pending_def

subsection \<open>The functions in terms of their segments\<close>

lemma settle_cases:
  assumes "settleRewards user now s = Inr (d, s1)"
  shows "(lastAccrualTimestamp s user = 0 \<and> d = 0 \<and> s1 = set_lastAccrualTimestamp user now s)
       \<or> (lastAccrualTimestamp s user \<noteq> 0 \<and> lastAccrualTimestamp s user \<le> now \<and> d = 0
            \<and> (now - lastAccrualTimestamp s user) div one_day = 0 \<and> s1 = s)
       \<or> (lastAccrualTimestamp s user \<noteq> 0 \<and> lastAccrualTimestamp s user \<le> now \<and> d \<noteq> 0
            \<and> d = (now - lastAccrualTimestamp s user) div one_day
            \<and> s1 = set_lastAccrualTimestamp user (lastAccrualTimestamp s user + d * one_day) (accrue user d s))"
  using assms
  by (auto simp: settleRewards_def accrue_def checked_defs Let_def split: if_splits sum.splits prod.splits)

lemma claimInitial_eq:
  "claimInitial user now s =
     (if hasClaimed s user then Inl ALREADY_CLAIMED else Inr (claimInitial_body user now s))"
  by (simp add: claimInitial_def claimInitial_body_def Let_def split: prod.splits)

lemma stake_eq:
  "stake user now x s =
     (if \<not> hasClaimed s user then Inl CLAIM_REQUIRED
      else case settleRewards user now s of Inl e \<Rightarrow> Inl e
           | Inr (d, s1) \<Rightarrow> if proof_ok x then Inr (stake_body user now (ext_plain x) s1)
                            else Inl InvalidProof)"
  by (simp add: stake_def stake_body_def FHE_fromExternal_def Let_def split: prod.splits sum.splits)

lemma unstake_eq:
  "unstake user now x s =
     (if \<not> hasClaimed s user then Inl CLAIM_REQUIRED
      else case settleRewards user now s of Inl e \<Rightarrow> Inl e
           | Inr (d, s1) \<Rightarrow> if proof_ok x then Inr (unstake_body user now (ext_plain x) s1)
                            else Inl InvalidProof)"
  by (simp add: unstake_def unstake_body_def FHE_fromExternal_def Let_def split: prod.splits sum.splits)

lemma claimInterest_eq:
  "claimInterest user now s =
     (if \<not> hasClaimed s user then Inl CLAIM_REQUIRED
      else case settleRewards user now s of Inl e \<Rightarrow> Inl e
           | Inr (d, s1) \<Rightarrow> Inr (claimInterest_body user now d s1))"
  by (simp add: claimInterest_def claimInterest_body_def Let_def split: prod.splits sum.splits)

lemma stake_elim:
  assumes "stake u now x s = Inr s'"
  obtains d s1 where "hasClaimed s u" "proof_ok x" "settleRewards u now s = Inr (d, s1)"
    "s' = stake_body u now (ext_plain x) s1"
  using assms by (auto simp: stake_eq split: if_splits sum.splits)

lemma unstake_elim:
  assumes "unstake u now x s = Inr s'"
  obtains d s1 where "hasClaimed s u" "proof_ok x" "settleRewards u now s = Inr (d, s1)"
    "s' = unstake_body u now (ext_plain x) s1"
  using assms by (auto simp: unstake_eq split: if_splits sum.splits)

lemma claimInterest_elim:
  assumes "claimInterest u now s = Inr s'"
  obtains d s1 where "hasClaimed s u" "settleRewards u now s = Inr (d, s1)"
    "s' = claimInterest_body u now d s1"
  using assms by (auto simp: claimInterest_eq split: if_splits sum.splits)

lemma claimInitial_elim:
  assumes "claimInitial u now s = Inr s'"
  obtains "\<not> hasClaimed s u" "s' = claimInitial_body u now s"
  using assms by (auto simp: claimInitial_eq split: if_splits)

subsection \<open>Allocated handles are distinct from fresh ones\<close>

lemma allocatedD:
  "allocated s \<Longrightarrow> liquidBalances s v < next_handle s"
  "allocated s \<Longrightarrow> stakedBalances s v < next_handle s"
  "allocated s \<Longrightarrow> pendingInterest s v < next_handle s"
  by (simp_all add: allocated_def)

lemma allocated_neq:
  assumes "allocated s"
  shows "liquidBalances s v \<noteq> next_handle s" "liquidBalances s v \<noteq> Suc (next_handle s)"
    "liquidBalances s v \<noteq> Suc (Suc (next_handle s))" "liquidBalances s v \<noteq> Suc (Suc (Suc (next_handle s)))"
    "stakedBalances s v \<noteq> next_handle s" "stakedBalances s v \<noteq> Suc (next_handle s)"
    "stakedBalances s v \<noteq> Suc (Suc (next_handle s))" "stakedBalances s v \<noteq> Suc (Suc (Suc (next_handle s)))"
    "pendingInterest s v \<noteq> next_handle s" "pendingInterest s v \<noteq> Suc (next_handle s)"
    "pendingInterest s v \<noteq> Suc (Suc (next_handle s))" "pendingInterest s v \<noteq> Suc (Suc (Suc (next_handle s)))"
  using allocatedD[OF assms, of v] by simp_all

lemma allocated_init: "allocated (init a)"
  by (simp add: allocated_def init_def)

subsection \<open>Effect of each segment\<close>

lemma set_last_frame:
  "allocated (set_lastAccrualTimestamp u t s) = allocated s"
  "liquid (set_lastAccrualTimestamp u t s) v = liquid s v"
  "staked (set_lastAccrualTimestamp u t s) v = staked s v"
  "pending (set_lastAccrualTimestamp u t s) v = pending s v"
  "hasClaimed (set_lastAccrualTimestamp u t s) = hasClaimed s"
  "lastAccrualTimestamp (set_lastAccrualTimestamp u t s) v = (if v = u then t else lastAccrualTimestamp s v)"
  "this_address (set_lastAccrualTimestamp u t s) = this_address s"
  "events (set_lastAccrualTimestamp u t s) = events s"
  by (simp_all add: set_lastAccrualTimestamp_def view_defs allocated_def)

lemma accrue_frame:
  "hasClaimed (accrue u d s) = hasClaimed s"
  "lastAccrualTimestamp (accrue u d s) = lastAccrualTimestamp s"
  "this_address (accrue u d s) = this_address s"
  "events (accrue u d s) = events s"
  by (simp_all add: accrue_def prim_defs)

lemma accrue_views:
  assumes "allocated s"
  shows "allocated (accrue u d s)"
    "liquid (accrue u d s) v = liquid s v"
    "staked (accrue u d s) v = staked s v"
    "pending (accrue u d s) v = (if v = u then pending s u + staked s u * of_nat d div 100 else pending s v)"
     apply (simp add: allocated_def accrue_def prim_defs allocatedD[OF assms] less_Suc_eq)
    apply (simp_all add: accrue_def prim_defs view_defs allocated_neq[OF assms])
  done

lemma claimInitial_body_frame:
  "hasClaimed (claimInitial_body u now s) v = (if v = u then True else hasClaimed s v)"
  "lastAccrualTimestamp (claimInitial_body u now s) v = (if v = u then now else lastAccrualTimestamp s v)"
  "this_address (claimInitial_body u now s) = this_address s"
  "events (claimInitial_body u now s) = events s @ [TokensClaimed u INITIAL_GRANT]"
  "liquid (claimInitial_body u now s) u = INITIAL_GRANT"
  "staked (claimInitial_body u now s) u = 0"
  "pending (claimInitial_body u now s) u = 0"
  by (simp_all add: claimInitial_body_def prim_defs view_defs)

lemma claimInitial_body_views:
  assumes "allocated s"
  shows "allocated (claimInitial_body u now s)"
    "v \<noteq> u \<Longrightarrow> liquid (claimInitial_body u now s) v = liquid s v"
    "v \<noteq> u \<Longrightarrow> staked (claimInitial_body u now s) v = staked s v"
    "v \<noteq> u \<Longrightarrow> pending (claimInitial_body u now s) v = pending s v"
     apply (simp add: allocated_def claimInitial_body_def prim_defs allocatedD[OF assms] less_Suc_eq)
    apply (simp_all add: claimInitial_body_def prim_defs view_defs allocated_neq[OF assms])
  done

lemma stake_body_frame:
  "hasClaimed (stake_body u now a s) = hasClaimed s"
  "lastAccrualTimestamp (stake_body u now a s) v = (if v = u then now else lastAccrualTimestamp s v)"
  "this_address (stake_body u now a s) = this_address s"
  "events (stake_body u now a s) = events s @ [TokensStaked u]"
  by (simp_all add: stake_body_def prim_defs)

lemma stake_body_views:
  assumes "allocated s"
  shows "allocated (stake_body u now a s)"
    "liquid (stake_body u now a s) v = (if v = u then liquid s u - a else liquid s v)"
    "staked (stake_body u now a s) v = (if v = u then staked s u + a else staked s v)"
    "pending (stake_body u now a s) v = pending s v"
     apply (simp add: allocated_def stake_body_def prim_defs allocatedD[OF assms] less_Suc_eq)
    apply (simp_all add: stake_body_def prim_defs view_defs allocated_neq[OF assms])
  done

lemma unstake_body_frame:
  "hasClaimed (unstake_body u now a s) = hasClaimed s"
  "lastAccrualTimestamp (unstake_body u now a s) v = (if v = u then now else lastAccrualTimestamp s v)"
  "this_address (unstake_body u now a s) = this_address s"
  "events (unstake_body u now a s) = events s @ [TokensUnstaked u]"
  by (simp_all add: unstake_body_def prim_defs)

lemma unstake_body_views:
  assumes "allocated s"
  shows "allocated (unstake_body u now a s)"
    "liquid (unstake_body u now a s) v = (if v = u then liquid s u + a else liquid s v)"
    "staked (unstake_body u now a s) v = (if v = u then staked s u - a else staked s v)"
    "pending (unstake_body u now a s) v = pending s v"
     apply (simp add: allocated_def unstake_body_def prim_defs allocatedD[OF assms] less_Suc_eq)
    apply (simp_all add: unstake_body_def prim_defs view_defs allocated_neq[OF assms])
  done

lemma claimInterest_body_frame:
  "hasClaimed (claimInterest_body u now d s) = hasClaimed s"
  "lastAccrualTimestamp (claimInterest_body u now d s) v = (if v = u then now else lastAccrualTimestamp s v)"
  "this_address (claimInterest_body u now d s) = this_address s"
  "events (claimInterest_body u now d s) = events s @ [InterestClaimed u d]"
  by (simp_all add: claimInterest_body_def prim_defs)

lemma claimInterest_body_views:
  assumes "allocated s"
  shows "allocated (claimInterest_body u now d s)"
    "liquid (claimInterest_body u now d s) v = (if v = u then liquid s u + pending s u else liquid s v)"
    "staked (claimInterest_body u now d s) v = staked s v"
    "pending (claimInterest_body u now d s) v = (if v = u then 0 else pending s v)"
     apply (simp add: allocated_def claimInterest_body_def prim_defs allocatedD[OF assms] less_Suc_eq)
    apply (simp_all add: claimInterest_body_def prim_defs view_defs allocated_neq[OF assms])
  done

subsection \<open>Effect of the settlement\<close>

lemma mult_div_le: "(l::nat) \<le> n \<Longrightarrow> l + (n - l) div k * k \<le> n"
proof -
  assume "l \<le> n"
  moreover have "(n - l) div k * k \<le> n - l" by simp
  ultimately show ?thesis by linarith
qed

lemma settle_frame:
  assumes "settleRewards u now s = Inr (d, s1)"
  shows "hasClaimed s1 = hasClaimed s"
    "this_address s1 = this_address s"
    "events s1 = events s"
    "lastAccrualTimestamp s1 v =
       (if v = u then (if lastAccrualTimestamp s u = 0 then now else lastAccrualTimestamp s u + d * one_day)
        else lastAccrualTimestamp s v)"
    "d = (if lastAccrualTimestamp s u = 0 then 0 else (now - lastAccrualTimestamp s u) div one_day)"
    "lastAccrualTimestamp s u \<le> lastAccrualTimestamp s1 u"
    "lastAccrualTimestamp s1 u \<le> now"
    "lastAccrualTimestamp s u \<le> now"
  using settle_cases[OF assms] mult_div_le[of "lastAccrualTimestamp s u" now one_day]
  by (auto simp: accrue_frame set_last_frame)

lemma settle_views:
  assumes "allocated s" "settleRewards u now s = Inr (d, s1)"
  shows "allocated s1"
    "liquid s1 v = liquid s v"
    "staked s1 v = staked s v"
    "pending s1 v = (if v = u then pending s u + accruedInterest s u now else pending s v)"
  using settle_cases[OF assms(2)] assms(1)
  by (auto simp: accrue_views set_last_frame accruedInterest_def)

lemma settle_ok:
  assumes "lastAccrualTimestamp s u \<le> now" "now < 2 ^ 256"
  shows "\<exists>s1. settleRewards u now s =
           Inr (if lastAccrualTimestamp s u = 0 then 0 else (now - lastAccrualTimestamp s u) div one_day, s1)"
proof -
  have "lastAccrualTimestamp s u + (now - lastAccrualTimestamp s u) div one_day * one_day \<le> now"
    using assms(1) by (rule mult_div_le)
  with assms(2) have b: "lastAccrualTimestamp s u + (now - lastAccrualTimestamp s u) div one_day * one_day < 2 ^ 256"
    "(now - lastAccrualTimestamp s u) div one_day * one_day < 2 ^ 256"
    by linarith+
  show ?thesis using assms(1) b
    by (simp add: settleRewards_def checked_defs Let_def split: prod.splits)
qed

subsection \<open>Effect of each external function\<close>

lemma stake_frame:
  assumes "stake u now x s = Inr s'"
  shows "hasClaimed s' = hasClaimed s"
    "this_address s' = this_address s"
    "lastAccrualTimestamp s' v = (if v = u then now else lastAccrualTimestamp s v)"
    "lastAccrualTimestamp s u \<le> now"
    "hasClaimed s u"
proof -
  from assms obtain d s1 where h: "hasClaimed s u" "settleRewards u now s = Inr (d, s1)"
    "s' = stake_body u now (ext_plain x) s1" by (rule stake_elim)
  note se = settle_frame[OF h(2)]
  show "hasClaimed s' = hasClaimed s" by (simp add: h(3) stake_body_frame se)
  show "this_address s' = this_address s" by (simp add: h(3) stake_body_frame se)
  show "lastAccrualTimestamp s' v = (if v = u then now else lastAccrualTimestamp s v)"
    by (simp add: h(3) stake_body_frame se)
  show "lastAccrualTimestamp s u \<le> now" by (rule se(8))
  show "hasClaimed s u" by (rule h(1))
qed

lemma stake_views:
  assumes "allocated s" "stake u now x s = Inr s'"
  shows "allocated s'"
    "liquid s' v = (if v = u then liquid s u - ext_plain x else liquid s v)"
    "staked s' v = (if v = u then staked s u + ext_plain x else staked s v)"
    "pending s' v = (if v = u then pending s u + accruedInterest s u now else pending s v)"
proof -
  from assms(2) obtain d s1 where h: "settleRewards u now s = Inr (d, s1)"
    "s' = stake_body u now (ext_plain x) s1" by (rule stake_elim)
  note se = settle_views[OF assms(1) h(1)]
  note sb = stake_body_views[OF se(1)]
  show "allocated s'" by (simp add: h(2) sb)
  show "liquid s' v = (if v = u then liquid s u - ext_plain x else liquid s v)"
    by (simp add: h(2) sb se)
  show "staked s' v = (if v = u then staked s u + ext_plain x else staked s v)"
    by (simp add: h(2) sb se)
  show "pending s' v = (if v = u then pending s u + accruedInterest s u now else pending s v)"
    by (simp add: h(2) sb se)
qed

lemma unstake_frame:
  assumes "unstake u now x s = Inr s'"
  shows "hasClaimed s' = hasClaimed s"
    "this_address s' = this_address s"
    "lastAccrualTimestamp s' v = (if v = u then now else lastAccrualTimestamp s v)"
    "lastAccrualTimestamp s u \<le> now"
    "hasClaimed s u"
proof -
  from assms obtain d s1 where h: "hasClaimed s u" "settleRewards u now s = Inr (d, s1)"
    "s' = unstake_body u now (ext_plain x) s1" by (rule unstake_elim)
  note se = settle_frame[OF h(2)]
  show "hasClaimed s' = hasClaimed s" by (simp add: h(3) unstake_body_frame se)
  show "this_address s' = this_address s" by (simp add: h(3) unstake_body_frame se)
  show "lastAccrualTimestamp s' v = (if v = u then now else lastAccrualTimestamp s v)"
    by (simp add: h(3) unstake_body_frame se)
  show "lastAccrualTimestamp s u \<le> now" by (rule se(8))
  show "hasClaimed s u" by (rule h(1))
qed

lemma unstake_views:
  assumes "allocated s" "unstake u now x s = Inr s'"
  shows "allocated s'"
    "liquid s' v = (if v = u then liquid s u + ext_plain x else liquid s v)"
    "staked s' v = (if v = u then staked s u - ext_plain x else staked s v)"
    "pending s' v = (if v = u then pending s u + accruedInterest s u now else pending s v)"
proof -
  from assms(2) obtain d s1 where h: "settleRewards u now s = Inr (d, s1)"
    "s' = unstake_body u now (ext_plain x) s1" by (rule unstake_elim)
  note se = settle_views[OF assms(1) h(1)]
  note sb = unstake_body_views[OF se(1)]
  show "allocated s'" by (simp add: h(2) sb)
  show "liquid s' v = (if v = u then liquid s u + ext_plain x else liquid s v)"
    by (simp add: h(2) sb se)
  show "staked s' v = (if v = u then staked s u - ext_plain x else staked s v)"
    by (simp add: h(2) sb se)
  show "pending s' v = (if v = u then pending s u + accruedInterest s u now else pending s v)"
    by (simp add: h(2) sb se)
qed

lemma claimInterest_frame:
  assumes "claimInterest u now s = Inr s'"
  shows "hasClaimed s' = hasClaimed s"
    "this_address s' = this_address s"
    "lastAccrualTimestamp s' v = (if v = u then now else lastAccrualTimestamp s v)"
    "lastAccrualTimestamp s u \<le> now"
    "hasClaimed s u"
    "events s' = events s @ [InterestClaimed u
        (if lastAccrualTimestamp s u = 0 then 0 else (now - lastAccrualTimestamp s u) div one_day)]"
proof -
  from assms obtain d s1 where h: "hasClaimed s u" "settleRewards u now s = Inr (d, s1)"
    "s' = claimInterest_body u now d s1" by (rule claimInterest_elim)
  note se = settle_frame[OF h(2)]
  show "hasClaimed s' = hasClaimed s" by (simp add: h(3) claimInterest_body_frame se)
  show "this_address s' = this_address s" by (simp add: h(3) claimInterest_body_frame se)
  show "lastAccrualTimestamp s' v = (if v = u then now else lastAccrualTimestamp s v)"
    by (simp add: h(3) claimInterest_body_frame se)
  show "lastAccrualTimestamp s u \<le> now" by (rule se(8))
  show "hasClaimed s u" by (rule h(1))
  show "events s' = events s @ [InterestClaimed u
        (if lastAccrualTimestamp s u = 0 then 0 else (now - lastAccrualTimestamp s u) div one_day)]"
    using se(5) by (simp add: h(3) claimInterest_body_frame se(3))
qed

lemma claimInterest_views:
  assumes "allocated s" "claimInterest u now s = Inr s'"
  shows "allocated s'"
    "liquid s' v = (if v = u then liquid s u + (pending s u + accruedInterest s u now) else liquid s v)"
    "staked s' v = staked s v"
    "pending s' v = (if v = u then 0 else pending s v)"
proof -
  from assms(2) obtain d s1 where h: "settleRewards u now s = Inr (d, s1)"
    "s' = claimInterest_body u now d s1" by (rule claimInterest_elim)
  note se = settle_views[OF assms(1) h(1)]
  note sb = claimInterest_body_views[OF se(1)]
  show "allocated s'" by (simp add: h(2) sb)
  show "liquid s' v = (if v = u then liquid s u + (pending s u + accruedInterest s u now) else liquid s v)"
    by (simp add: h(2) sb se)
  show "staked s' v = staked s v"
    by (simp add: h(2) sb se)
  show "pending s' v = (if v = u then 0 else pending s v)"
    by (simp add: h(2) sb se)
qed

lemma claimInitial_frame:
  assumes "claimInitial u now s = Inr s'"
  shows "hasClaimed s' v = (if v = u then True else hasClaimed s v)"
    "this_address s' = this_address s"
    "lastAccrualTimestamp s' v = (if v = u then now else lastAccrualTimestamp s v)"
    "\<not> hasClaimed s u"
  using assms by (auto elim!: claimInitial_elim simp: claimInitial_body_frame)

lemma claimInitial_views:
  assumes "allocated s" "claimInitial u now s = Inr s'"
  shows "allocated s'"
    "liquid s' v = (if v = u then INITIAL_GRANT else liquid s v)"
    "staked s' v = (if v = u then 0 else staked s v)"
    "pending s' v = (if v = u then 0 else pending s v)"
  using assms
  by (auto elim!: claimInitial_elim
      simp: claimInitial_body_frame claimInitial_body_views)

subsection \<open>Transactions and runs\<close>

lemma transact_Inr: "exec c s = Inr s' \<Longrightarrow> transact c s = s'"
  by (simp add: transact_def)

lemma transact_Inl: "exec c s = Inl e \<Longrightarrow> transact c s = s"
  by (simp add: transact_def)

lemma exec_invs:
  assumes "allocated s" "exec c s = Inr s'"
  shows "allocated s' \<and> this_address s' = this_address s"
proof (cases c)
  case (ClaimInitial u now)
  with assms(2) have e: "claimInitial u now s = Inr s'" by simp
  from claimInitial_views[OF assms(1) e] claimInitial_frame(2)[OF e] show ?thesis by simp
next
  case (Stake u now x)
  with assms(2) have e: "stake u now x s = Inr s'" by simp
  from stake_views[OF assms(1) e] stake_frame(2)[OF e] show ?thesis by simp
next
  case (Unstake u now x)
  with assms(2) have e: "unstake u now x s = Inr s'" by simp
  from unstake_views[OF assms(1) e] unstake_frame(2)[OF e] show ?thesis by simp
next
  case (ClaimInterest u now)
  with assms(2) have e: "claimInterest u now s = Inr s'" by simp
  from claimInterest_views[OF assms(1) e] claimInterest_frame(2)[OF e] show ?thesis by simp
qed

lemma exec_timestamps:
  assumes "exec c s = Inr s'"
  shows "lastAccrualTimestamp s' v = (if v = sender c then timestamp c else lastAccrualTimestamp s v)"
    "hasClaimed s' v = (if v = sender c then True else hasClaimed s v)"
    "hasClaimed s (sender c) \<Longrightarrow> lastAccrualTimestamp s (sender c) \<le> timestamp c"
proof -
  have "(lastAccrualTimestamp s' v = (if v = sender c then timestamp c else lastAccrualTimestamp s v))
    \<and> (hasClaimed s' v = (if v = sender c then True else hasClaimed s v))
    \<and> (hasClaimed s (sender c) \<longrightarrow> lastAccrualTimestamp s (sender c) \<le> timestamp c)"
  proof (cases c)
    case (ClaimInitial u now)
    with assms have e: "claimInitial u now s = Inr s'" by simp
    from claimInitial_frame(1,3)[OF e, of v] claimInitial_frame(4)[OF e] show ?thesis by (simp add: ClaimInitial)
  next
    case (Stake u now x)
    with assms have e: "stake u now x s = Inr s'" by simp
    from stake_frame(3)[OF e, of v] stake_frame(1,4,5)[OF e] show ?thesis by (simp add: Stake)
  next
    case (Unstake u now x)
    with assms have e: "unstake u now x s = Inr s'" by simp
    from unstake_frame(3)[OF e, of v] unstake_frame(1,4,5)[OF e] show ?thesis by (simp add: Unstake)
  next
    case (ClaimInterest u now)
    with assms have e: "claimInterest u now s = Inr s'" by simp
    from claimInterest_frame(3)[OF e, of v] claimInterest_frame(1,4,5)[OF e] show ?thesis by (simp add: ClaimInterest)
  qed
  then show "lastAccrualTimestamp s' v = (if v = sender c then timestamp c else lastAccrualTimestamp s v)"
    "hasClaimed s' v = (if v = sender c then True else hasClaimed s v)"
    "hasClaimed s (sender c) \<Longrightarrow> lastAccrualTimestamp s (sender c) \<le> timestamp c"
    by simp_all
qed

lemma exec_total:
  assumes "allocated s" "exec c s = Inr s'"
  shows "total s' v =
    (if v = sender c then (if hasClaimed s v then total s v else INITIAL_GRANT) + credited c s v
     else total s v)"
proof (cases c)
  case (ClaimInitial u now)
  with assms(2) have e: "claimInitial u now s = Inr s'" by simp
  from claimInitial_views(2-4)[OF assms(1) e, of v] claimInitial_frame(4)[OF e]
  show ?thesis by (simp add: ClaimInitial total_def)
next
  case (Stake u now x)
  with assms(2) have e: "stake u now x s = Inr s'" by simp
  from stake_views(2-4)[OF assms(1) e, of v] stake_frame(5)[OF e]
  show ?thesis by (simp add: Stake total_def e)
next
  case (Unstake u now x)
  with assms(2) have e: "unstake u now x s = Inr s'" by simp
  from unstake_views(2-4)[OF assms(1) e, of v] unstake_frame(5)[OF e]
  show ?thesis by (simp add: Unstake total_def e)
next
  case (ClaimInterest u now)
  with assms(2) have e: "claimInterest u now s = Inr s'" by simp
  from claimInterest_views(2-4)[OF assms(1) e, of v] claimInterest_frame(5)[OF e]
  show ?thesis by (simp add: ClaimInterest total_def e)
qed

lemma credited_other: "v \<noteq> sender c \<Longrightarrow> credited c s v = 0"
  by (cases c) (simp_all split: sum.splits)

lemma credited_reverted: "exec c s = Inl e \<Longrightarrow> credited c s v = 0"
  by (cases c) simp_all

lemma run_invs:
  assumes "allocated s"
  shows "allocated (run cs s) \<and> this_address (run cs s) = this_address s"
  using assms
proof (induction cs arbitrary: s)
  case Nil
  then show ?case by simp
next
  case (Cons c cs)
  show ?case
  proof (cases "exec c s")
    case (Inl e)
    then show ?thesis using Cons by (simp add: transact_Inl)
  next
    case (Inr s')
    from exec_invs[OF Cons.prems(1) Inr]
    have "allocated s'" "this_address s' = this_address s" by simp_all
    with Cons.IH[of s'] show ?thesis using Inr by (simp add: transact_Inr)
  qed
qed

lemma run_total:
  assumes "allocated s" "hasClaimed (run cs s) u"
  shows "total (run cs s) u = (if hasClaimed s u then total s u else INITIAL_GRANT) + total_accrued cs s u"
  using assms
proof (induction cs arbitrary: s)
  case Nil
  then show ?case by simp
next
  case (Cons c cs)
  show ?case
  proof (cases "exec c s")
    case (Inl e)
    then have t: "transact c s = s" by (rule transact_Inl)
    from Cons.IH[of s] Cons.prems show ?thesis
      by (simp add: t credited_reverted[OF Inl])
  next
    case (Inr s')
    then have t: "transact c s = s'" by (rule transact_Inr)
    have a: "allocated s'" using exec_invs[OF Cons.prems(1) Inr] by simp
    have c2: "hasClaimed (run cs s') u" using Cons.prems(2) by (simp add: t)
    note ih = Cons.IH[OF a c2]
    note et = exec_total[OF Cons.prems(1) Inr, of u]
    note eh = exec_timestamps(2)[OF Inr, of u]
    show ?thesis
    proof (cases "u = sender c")
      case True
      then show ?thesis using ih et eh by (simp add: t add.assoc)
    next
      case False
      then show ?thesis using ih et eh by (simp add: t credited_other)
    qed
  qed
qed

lemma run_claimed_iff:
  assumes "\<forall>c\<in>set cs. 0 < timestamp c" "\<forall>v. hasClaimed s v \<longleftrightarrow> 0 < lastAccrualTimestamp s v"
  shows "hasClaimed (run cs s) u \<longleftrightarrow> 0 < lastAccrualTimestamp (run cs s) u"
  using assms
proof (induction cs arbitrary: s)
  case Nil
  then show ?case by simp
next
  case (Cons c cs)
  show ?case
  proof (cases "exec c s")
    case (Inl e)
    then show ?thesis using Cons by (simp add: transact_Inl)
  next
    case (Inr s')
    have "\<forall>v. hasClaimed s' v \<longleftrightarrow> 0 < lastAccrualTimestamp s' v"
      using Cons.prems by (simp add: exec_timestamps[OF Inr])
    with Cons.IH[of s'] Cons.prems(1) show ?thesis using Inr by (simp add: transact_Inr)
  qed
qed

lemma run_unclaimed:
  assumes "\<forall>v. \<not> hasClaimed s v \<longrightarrow> lastAccrualTimestamp s v = 0"
  shows "\<not> hasClaimed (run cs s) u \<Longrightarrow> lastAccrualTimestamp (run cs s) u = 0"
  using assms
proof (induction cs arbitrary: s)
  case Nil
  then show ?case by simp
next
  case (Cons c cs)
  show ?case
  proof (cases "exec c s")
    case (Inl e)
    then show ?thesis using Cons by (simp add: transact_Inl)
  next
    case (Inr s')
    have "\<forall>v. \<not> hasClaimed s' v \<longrightarrow> lastAccrualTimestamp s' v = 0"
      using Cons.prems(2) by (simp add: exec_timestamps[OF Inr])
    with Cons.IH[of s'] Cons.prems(1) show ?thesis using Inr by (simp add: transact_Inr)
  qed
qed

lemma exec_monotone:
  assumes "exec c s = Inr s'" "\<not> hasClaimed s (sender c) \<longrightarrow> lastAccrualTimestamp s (sender c) = 0"
  shows "lastAccrualTimestamp s v \<le> lastAccrualTimestamp s' v"
  using exec_timestamps(1)[OF assms(1), of v] exec_timestamps(3)[OF assms(1)] assms(2)
  by (cases "hasClaimed s (sender c)") auto

subsection \<open>Writes and grants of each segment\<close>

lemma stg_append:
  "stored_then_granted a u xs \<Longrightarrow> stored_then_granted a u ys \<Longrightarrow> stored_then_granted a u (xs @ ys)"
  by (induction a u xs rule: stored_then_granted.induct) simp_all

lemma stg_stored:
  "stored_then_granted a u es \<Longrightarrow> Stored v h \<in> set es \<Longrightarrow>
     v = u \<and> Granted h a \<in> set es \<and> Granted h u \<in> set es"
  by (induction a u es rule: stored_then_granted.induct) auto

lemma stg_granted:
  "stored_then_granted a u es \<Longrightarrow> Granted h p \<in> set es \<Longrightarrow>
     (p = a \<or> p = u) \<and> Stored u h \<in> set es"
  by (induction a u es rule: stored_then_granted.induct) auto

lemma grants_step_log: "grants_step u es s s' \<Longrightarrow> call_log s s' = es"
  by (simp add: grants_step_def call_log_def)

lemma grants_step_refl: "grants_step u [] s s"
  by (simp add: grants_step_def)

lemma grants_step_trans:
  assumes "grants_step u es1 s s1" "grants_step u es2 s1 s2"
  shows "grants_step u (es1 @ es2) s s2"
proof -
  from assms have e: "effects s2 = effects s @ (es1 @ es2)"
    and t: "this_address s1 = this_address s" "this_address s2 = this_address s"
    and g: "stored_then_granted (this_address s) u es1" "stored_then_granted (this_address s) u es2"
    and a: "\<forall>h. acl s2 h = acl s h \<union> {p. Granted h p \<in> set (es1 @ es2)}"
    by (auto simp: grants_step_def)
  have f: "(liquidBalances s2 v = liquidBalances s v \<or> Stored v (liquidBalances s2 v) \<in> set (es1 @ es2)) \<and>
          (stakedBalances s2 v = stakedBalances s v \<or> Stored v (stakedBalances s2 v) \<in> set (es1 @ es2)) \<and>
          (pendingInterest s2 v = pendingInterest s v \<or> Stored v (pendingInterest s2 v) \<in> set (es1 @ es2))"
    for v
  proof -
    from assms(1) have a1:
      "liquidBalances s1 v = liquidBalances s v \<or> Stored v (liquidBalances s1 v) \<in> set es1"
      "stakedBalances s1 v = stakedBalances s v \<or> Stored v (stakedBalances s1 v) \<in> set es1"
      "pendingInterest s1 v = pendingInterest s v \<or> Stored v (pendingInterest s1 v) \<in> set es1"
      by (simp_all add: grants_step_def)
    from assms(2) have a2:
      "liquidBalances s2 v = liquidBalances s1 v \<or> Stored v (liquidBalances s2 v) \<in> set es2"
      "stakedBalances s2 v = stakedBalances s1 v \<or> Stored v (stakedBalances s2 v) \<in> set es2"
      "pendingInterest s2 v = pendingInterest s1 v \<or> Stored v (pendingInterest s2 v) \<in> set es2"
      by (simp_all add: grants_step_def)
    show ?thesis using a1 a2 by auto
  qed
  show ?thesis unfolding grants_step_def
    using e t(2) stg_append[OF g] a f by simp
qed

lemma grants_step_set_last: "grants_step u [] s (set_lastAccrualTimestamp v t s)"
  by (simp add: grants_step_def set_lastAccrualTimestamp_def)

lemma grants_step_accrue: "grants_step u (call_log s (accrue u d s)) s (accrue u d s)"
  by (auto simp: grants_step_def call_log_def accrue_def prim_defs)

lemma grants_step_stake_body:
  "grants_step u (call_log s (stake_body u now a s)) s (stake_body u now a s)"
  by (auto simp: grants_step_def call_log_def stake_body_def prim_defs)

lemma grants_step_unstake_body:
  "grants_step u (call_log s (unstake_body u now a s)) s (unstake_body u now a s)"
  by (auto simp: grants_step_def call_log_def unstake_body_def prim_defs)

lemma grants_step_claimInterest_body:
  "grants_step u (call_log s (claimInterest_body u now d s)) s (claimInterest_body u now d s)"
  by (auto simp: grants_step_def call_log_def claimInterest_body_def prim_defs)

lemma grants_step_claimInitial_body:
  "grants_step u (call_log s (claimInitial_body u now s)) s (claimInitial_body u now s)"
  "Stored u (liquidBalances (claimInitial_body u now s) u) \<in> set (call_log s (claimInitial_body u now s))"
  "Stored u (stakedBalances (claimInitial_body u now s) u) \<in> set (call_log s (claimInitial_body u now s))"
  "Stored u (pendingInterest (claimInitial_body u now s) u) \<in> set (call_log s (claimInitial_body u now s))"
  by (auto simp: grants_step_def call_log_def claimInitial_body_def prim_defs)

lemma settle_grants:
  assumes "settleRewards u now s = Inr (d, s1)"
  shows "\<exists>es. grants_step u es s s1"
proof -
  from settle_cases[OF assms] consider
      "s1 = set_lastAccrualTimestamp u now s" | "s1 = s"
    | "s1 = set_lastAccrualTimestamp u (lastAccrualTimestamp s u + d * one_day) (accrue u d s)"
    by blast
  then show ?thesis
  proof cases
    case 1
    then show ?thesis using grants_step_set_last by blast
  next
    case 2
    then show ?thesis using grants_step_refl by blast
  next
    case 3
    from grants_step_trans[OF grants_step_accrue grants_step_set_last] 3
    show ?thesis by blast
  qed
qed

lemma exec_grants:
  assumes "exec c s = Inr s'"
  shows "\<exists>es. grants_step (sender c) es s s' \<and>
    (hasClaimed s (sender c) \<or>
       Stored (sender c) (liquidBalances s' (sender c)) \<in> set es \<and>
       Stored (sender c) (stakedBalances s' (sender c)) \<in> set es \<and>
       Stored (sender c) (pendingInterest s' (sender c)) \<in> set es)"
proof (cases c)
  case (ClaimInitial u now)
  with assms have "claimInitial u now s = Inr s'" by simp
  then have "s' = claimInitial_body u now s" by (rule claimInitial_elim)
  with grants_step_claimInitial_body[where u = u and s = s and now = now] show ?thesis by (auto simp: ClaimInitial)
next
  case (Stake u now x)
  with assms have "stake u now x s = Inr s'" by simp
  then obtain d s1 where h: "hasClaimed s u" "settleRewards u now s = Inr (d, s1)"
    "s' = stake_body u now (ext_plain x) s1" by (rule stake_elim)
  from settle_grants[OF h(2)] obtain es where "grants_step u es s s1" by blast
  from grants_step_trans[OF this grants_step_stake_body] h(1,3)
  show ?thesis by (auto simp: Stake)
next
  case (Unstake u now x)
  with assms have "unstake u now x s = Inr s'" by simp
  then obtain d s1 where h: "hasClaimed s u" "settleRewards u now s = Inr (d, s1)"
    "s' = unstake_body u now (ext_plain x) s1" by (rule unstake_elim)
  from settle_grants[OF h(2)] obtain es where "grants_step u es s s1" by blast
  from grants_step_trans[OF this grants_step_unstake_body] h(1,3)
  show ?thesis by (auto simp: Unstake)
next
  case (ClaimInterest u now)
  with assms have "claimInterest u now s = Inr s'" by simp
  then obtain d s1 where h: "hasClaimed s u" "settleRewards u now s = Inr (d, s1)"
    "s' = claimInterest_body u now d s1" by (rule claimInterest_elim)
  from settle_grants[OF h(2)] obtain es where "grants_step u es s s1" by blast
  from grants_step_trans[OF this grants_step_claimInterest_body] h(1,3)
  show ?thesis by (auto simp: ClaimInterest)
qed

lemma owners_granted_init: "owners_granted (init a)"
  by (simp add: owners_granted_def init_def)

lemma owners_granted_exec:
  assumes "owners_granted s" "exec c s = Inr s'"
  shows "owners_granted s'"
proof -
  from exec_grants[OF assms(2)] obtain es where
    st: "grants_step (sender c) es s s'" and
    w: "hasClaimed s (sender c) \<or>
       Stored (sender c) (liquidBalances s' (sender c)) \<in> set es \<and>
       Stored (sender c) (stakedBalances s' (sender c)) \<in> set es \<and>
       Stored (sender c) (pendingInterest s' (sender c)) \<in> set es"
    by blast
  from st have e: "effects s' = effects s @ es"
    and g: "stored_then_granted (this_address s) (sender c) es"
    and a: "\<And>h. acl s' h = acl s h \<union> {p. Granted h p \<in> set es}"
    and t: "this_address s' = this_address s"
    by (simp_all add: grants_step_def)
  from assms(1) have old: "\<And>h p. p \<in> acl s h \<Longrightarrow> p = this_address s \<or> Stored p h \<in> set (effects s)"
    by (simp add: owners_granted_def)
  have new: "this_address s \<in> acl s' h \<and> v \<in> acl s' h"
    if "Stored v h \<in> set es" for v h
    using stg_stored[OF g that] by (simp add: a)
  have keep: "this_address s \<in> acl s' h \<and> v \<in> acl s' h"
    if "this_address s \<in> acl s h \<and> v \<in> acl s h" for v h
    using that by (simp add: a)
  have fields: "this_address s \<in> acl s' (liquidBalances s' v) \<and> v \<in> acl s' (liquidBalances s' v) \<and>
        this_address s \<in> acl s' (stakedBalances s' v) \<and> v \<in> acl s' (stakedBalances s' v) \<and>
        this_address s \<in> acl s' (pendingInterest s' v) \<and> v \<in> acl s' (pendingInterest s' v)"
    if c: "hasClaimed s' v" for v
  proof -
    from st have ch:
      "liquidBalances s' v = liquidBalances s v \<or> Stored v (liquidBalances s' v) \<in> set es"
      "stakedBalances s' v = stakedBalances s v \<or> Stored v (stakedBalances s' v) \<in> set es"
      "pendingInterest s' v = pendingInterest s v \<or> Stored v (pendingInterest s' v) \<in> set es"
      by (simp_all add: grants_step_def)
    show ?thesis
    proof (cases "hasClaimed s v")
      case True
      with assms(1) have o:
        "this_address s \<in> acl s (liquidBalances s v) \<and> v \<in> acl s (liquidBalances s v)"
        "this_address s \<in> acl s (stakedBalances s v) \<and> v \<in> acl s (stakedBalances s v)"
        "this_address s \<in> acl s (pendingInterest s v) \<and> v \<in> acl s (pendingInterest s v)"
        by (simp_all add: owners_granted_def)
      from ch(1) o(1) have 1:
        "this_address s \<in> acl s' (liquidBalances s' v) \<and> v \<in> acl s' (liquidBalances s' v)"
        using new[of v "liquidBalances s' v"] keep[of "liquidBalances s v" v] by auto
      from ch(2) o(2) have 2:
        "this_address s \<in> acl s' (stakedBalances s' v) \<and> v \<in> acl s' (stakedBalances s' v)"
        using new[of v "stakedBalances s' v"] keep[of "stakedBalances s v" v] by auto
      from ch(3) o(3) have 3:
        "this_address s \<in> acl s' (pendingInterest s' v) \<and> v \<in> acl s' (pendingInterest s' v)"
        using new[of v "pendingInterest s' v"] keep[of "pendingInterest s v" v] by auto
      from 1 2 3 show ?thesis by simp
    next
      case False
      with c exec_timestamps(2)[OF assms(2), of v] have v: "v = sender c"
        by (simp split: if_splits)
      with False w have
        "Stored v (liquidBalances s' v) \<in> set es" "Stored v (stakedBalances s' v) \<in> set es"
        "Stored v (pendingInterest s' v) \<in> set es" by simp_all
      then show ?thesis using new by blast
    qed
  qed
  have only: "p = this_address s \<or> Stored p h \<in> set (effects s')" if p: "p \<in> acl s' h" for h p
  proof -
    from p a[of h] have "p \<in> acl s h \<or> Granted h p \<in> set es" by simp
    then show ?thesis
    proof
      assume "p \<in> acl s h"
      from old[OF this] show ?thesis by (auto simp: e)
    next
      assume "Granted h p \<in> set es"
      from stg_granted[OF g this] show ?thesis by (auto simp: e)
    qed
  qed
  show ?thesis unfolding owners_granted_def using fields only by (simp add: t)
qed

lemma owners_granted_run:
  assumes "owners_granted s"
  shows "owners_granted (run cs s) \<and> this_address (run cs s) = this_address s"
  using assms
proof (induction cs arbitrary: s)
  case Nil
  then show ?case by simp
next
  case (Cons c cs)
  show ?case
  proof (cases "exec c s")
    case (Inl e)
    then show ?thesis using Cons by (simp add: transact_Inl)
  next
    case (Inr s')
    from exec_grants[OF Inr] have "this_address s' = this_address s"
      by (auto simp: grants_step_def)
    with Cons.IH[OF owners_granted_exec[OF Cons.prems Inr]] Inr
    show ?thesis by (simp add: transact_Inr)
  qed
qed

subsection \<open>The sample states, evaluated\<close>

lemmas run_defs = transact_def claimInitial_def stake_def unstake_def claimInterest_def
  settleRewards_def prim_defs checked_defs init_def Let_def

lemma demo_claimed_facts:
  "allocated demo_claimed" "hasClaimed demo_claimed 7" "lastAccrualTimestamp demo_claimed 7 = 10"
  "liquid demo_claimed 7 = 1000" "staked demo_claimed 7 = 0" "pending demo_claimed 7 = 0"
  by (simp_all add: demo_claimed_def run_defs view_defs allocated_def INITIAL_GRANT_def)

lemma demo_staked_facts:
  "allocated demo_staked" "hasClaimed demo_staked 7" "lastAccrualTimestamp demo_staked 7 = 10"
  "liquid demo_staked 7 = 500" "staked demo_staked 7 = 500" "pending demo_staked 7 = 0"
  by (simp_all add: demo_staked_def run_defs view_defs allocated_def INITIAL_GRANT_def)

lemma demo_large_facts:
  "allocated demo_large" "hasClaimed demo_large 7" "lastAccrualTimestamp demo_large 7 = 10"
  "staked demo_large 7 = 9223372036854775808" "pending demo_large 7 = 0"
  "liquid demo_large 7 = 9223372036854776808"
  by (simp_all add: demo_large_def run_defs view_defs allocated_def INITIAL_GRANT_def)

subsection \<open>Arithmetic\<close>

lemma div_mult_bounds:
  assumes "(l::nat) \<le> n" "n < b"
  shows "(n - l) div k * k < b" "l + (n - l) div k * k < b"
  using mult_div_le[OF assms(1), of k] assms(2) by linarith+

lemma word_mul_div_exact:
  fixes a :: uint64
  assumes "unat a * D < 2 ^ 64"
  shows "(a * of_nat D) div 100 = of_nat (unat a * D div 100)"
proof -
  have e: "a * of_nat D = (of_nat (unat a * D) :: uint64)" by simp
  have u: "unat (of_nat (unat a * D) :: uint64) = unat a * D"
    using assms by (simp only: unat_of_nat) simp
  have "unat ((a * of_nat D) div 100) = unat a * D div 100"
    by (simp only: e unat_div u) simp
  then have "of_nat (unat ((a * of_nat D) div 100)) = (of_nat (unat a * D div 100) :: uint64)"
    by simp
  then show ?thesis by simp
qed

section \<open>The claims\<close>

text \<open>
  Statements about a single call are made for a state \<open>s\<close> with \<open>allocated s\<close>, which
  holds at deployment and is kept by every call (\<open>allocated_init\<close>, \<open>run_invs\<close>), for
  a \<^verbatim>\<open>block.timestamp\<close> that is a \<^verbatim>\<open>uint256\<close> and is not earlier than the account's
  checkpoint, and for an external input whose proof verifies.
\<close>

text \<open>
  C1. For an account whose checkpoint \<open>lastAccrualTimestamp\<close> is not \<open>0\<close> (and not later
  than \<open>now\<close>, a \<^verbatim>\<open>uint256\<close>), \<^verbatim>\<open>_settleRewards\<close> returns
  \<open>elapsedDays = (now - lastAccrualTimestamp) div 86400\<close>. If that is \<open>0\<close> the state is
  returned unchanged, so neither the pending interest nor the checkpoint moves. Otherwise
  the pending interest becomes \<open>pending + (staked * elapsedDays) div 100\<close> in 64-bit
  unsigned arithmetic and the checkpoint becomes
  \<open>lastAccrualTimestamp + elapsedDays * 86400\<close>.
\<close>

theorem settleRewards_accrual:
  assumes "lastAccrualTimestamp s user \<noteq> 0" "lastAccrualTimestamp s user \<le> now" "now < 2 ^ 256"
    "allocated s"
  shows "\<exists>s'. settleRewards user now s = Inr ((now - lastAccrualTimestamp s user) div one_day, s') \<and>
    ((now - lastAccrualTimestamp s user) div one_day = 0 \<longrightarrow> s' = s) \<and>
    ((now - lastAccrualTimestamp s user) div one_day \<noteq> 0 \<longrightarrow>
       pending s' user =
         pending s user + (staked s user * of_nat ((now - lastAccrualTimestamp s user) div one_day)) div 100 \<and>
       lastAccrualTimestamp s' user =
         lastAccrualTimestamp s user + (now - lastAccrualTimestamp s user) div one_day * one_day)"
proof -
  from assms(4) have h: "stakedBalances s user < next_handle s" "pendingInterest s user < next_handle s"
    by (simp_all add: allocatedD)
  note b = div_mult_bounds[OF assms(2,3), of one_day]
  show ?thesis using assms(1,2) h b
    by (simp add: settleRewards_def prim_defs checked_defs view_defs Let_def)
qed

theorem settleRewards_accrual_witness:
  "lastAccrualTimestamp demo_staked 7 \<noteq> 0 \<and> lastAccrualTimestamp demo_staked 7 \<le> 259210
   \<and> (259210::nat) < 2 ^ 256 \<and> allocated demo_staked
   \<and> (\<exists>s'. settleRewards 7 259210 demo_staked = Inr (3, s') \<and> pending s' 7 = 15
            \<and> lastAccrualTimestamp s' 7 = 259210)"
  using settleRewards_accrual[of demo_staked 7 259210]
  by (simp add: demo_staked_facts)


text \<open>
  C4. For an account that has not claimed, \<^verbatim>\<open>claimInitial\<close> succeeds; afterwards
  the liquid balance decrypts to \<open>INITIAL_GRANT\<close>, the staked balance and the pending
  interest decrypt to \<open>0\<close>, \<open>hasClaimed\<close> is set and the checkpoint is the current
  time. \<^verbatim>\<open>getInitialGrant\<close> returns \<open>1000\<close>, the value of \<open>INITIAL_GRANT\<close>.
\<close>

theorem claimInitial_grant:
  assumes "\<not> hasClaimed s user"
  shows "(\<exists>s'. claimInitial user now s = Inr s' \<and> liquid s' user = INITIAL_GRANT
           \<and> staked s' user = 0 \<and> pending s' user = 0 \<and> hasClaimed s' user
           \<and> lastAccrualTimestamp s' user = now)
         \<and> INITIAL_GRANT = 1000 \<and> getInitialGrant = 1000"
  using assms
  by (simp add: claimInitial_eq claimInitial_body_frame getInitialGrant_def INITIAL_GRANT_def)

theorem claimInitial_grant_witness:
  "\<not> hasClaimed (init 99) 7
   \<and> (\<exists>s'. claimInitial 7 10 (init 99) = Inr s' \<and> liquid s' 7 = 1000 \<and> staked s' 7 = 0
            \<and> pending s' 7 = 0 \<and> hasClaimed s' 7 \<and> lastAccrualTimestamp s' 7 = 10)
   \<and> getInitialGrant = 1000"
  using claimInitial_grant[of "init 99" 7 10]
  by (simp add: init_def INITIAL_GRANT_def getInitialGrant_def)

text \<open>
  C7. Precondition errors are atomic. On an account that has claimed, \<^verbatim>\<open>claimInitial\<close>
  fails with \<open>ALREADY_CLAIMED\<close>; on an account that has not, \<^verbatim>\<open>stake\<close>,
  \<^verbatim>\<open>unstake\<close> and \<^verbatim>\<open>claimInterest\<close> fail with \<open>CLAIM_REQUIRED\<close> (whatever the
  amount, the proof and the time). In each case the transaction leaves the whole state,
  hence every field of every account, as it was.
\<close>

theorem precondition_errors_atomic:
  "(hasClaimed s user \<longrightarrow>
      claimInitial user now s = Inl ALREADY_CLAIMED \<and> transact (ClaimInitial user now) s = s)
   \<and> (\<not> hasClaimed s user \<longrightarrow>
      stake user now x s = Inl CLAIM_REQUIRED \<and> transact (Stake user now x) s = s
      \<and> unstake user now x s = Inl CLAIM_REQUIRED \<and> transact (Unstake user now x) s = s
      \<and> claimInterest user now s = Inl CLAIM_REQUIRED \<and> transact (ClaimInterest user now) s = s)"
  by (simp add: claimInitial_def stake_def unstake_def claimInterest_def transact_def)

theorem precondition_errors_atomic_witness:
  "hasClaimed demo_claimed 7
   \<and> claimInitial 7 20 demo_claimed = Inl ALREADY_CLAIMED
   \<and> transact (ClaimInitial 7 20) demo_claimed = demo_claimed
   \<and> \<not> hasClaimed demo_claimed 8
   \<and> stake 8 20 \<lparr>ext_plain = 5, proof_ok = True\<rparr> demo_claimed = Inl CLAIM_REQUIRED
   \<and> transact (Stake 8 20 \<lparr>ext_plain = 5, proof_ok = True\<rparr>) demo_claimed = demo_claimed
   \<and> unstake 8 20 \<lparr>ext_plain = 5, proof_ok = True\<rparr> demo_claimed = Inl CLAIM_REQUIRED
   \<and> transact (Unstake 8 20 \<lparr>ext_plain = 5, proof_ok = True\<rparr>) demo_claimed = demo_claimed
   \<and> claimInterest 8 20 demo_claimed = Inl CLAIM_REQUIRED
   \<and> transact (ClaimInterest 8 20) demo_claimed = demo_claimed"
proof -
  have c: "hasClaimed demo_claimed 7" and n: "\<not> hasClaimed demo_claimed 8"
    by (simp_all add: demo_claimed_def run_defs)
  show ?thesis
    using precondition_errors_atomic[of demo_claimed 7 20]
      precondition_errors_atomic[of demo_claimed 8 20 "\<lparr>ext_plain = 5, proof_ok = True\<rparr>"] c n
    by simp
qed

text \<open>
  C6. Round trip. On a claimed account, staking an amount not larger than the liquid
  balance and then unstaking the same amount (both with valid proofs, at times
  \<open>t1 \<le> t2\<close> not earlier than the checkpoint) succeeds twice and returns the plaintexts
  of the liquid and of the staked balance to their values before the stake.
\<close>

theorem stake_unstake_roundtrip:
  assumes "hasClaimed s u" "allocated s" "ext_plain x \<le> liquid s u"
    "proof_ok x" "proof_ok y" "ext_plain y = ext_plain x"
    "lastAccrualTimestamp s u \<le> t1" "t1 \<le> t2" "t2 < 2 ^ 256"
  shows "\<exists>s1 s2. stake u t1 x s = Inr s1 \<and> unstake u t2 y s1 = Inr s2
           \<and> liquid s2 u = liquid s u \<and> staked s2 u = staked s u"
proof -
  from assms(8,9) have t1: "t1 < 2 ^ 256" by simp
  from settle_ok[OF assms(7) t1] assms(1,4)
  obtain s1 where s1: "stake u t1 x s = Inr s1" by (auto simp: stake_eq)
  have c1: "hasClaimed s1 u" using stake_frame(1)[OF s1] assms(1) by simp
  have l1: "lastAccrualTimestamp s1 u \<le> t2" using stake_frame(3)[OF s1, of u] assms(8) by simp
  have a1: "allocated s1" by (rule stake_views(1)[OF assms(2) s1])
  from settle_ok[OF l1 assms(9)] c1 assms(5)
  obtain s2 where s2: "unstake u t2 y s1 = Inr s2" by (auto simp: unstake_eq)
  have "liquid s2 u = liquid s u"
    using stake_views(2)[OF assms(2) s1, of u] unstake_views(2)[OF a1 s2, of u] assms(6) by simp
  moreover have "staked s2 u = staked s u"
    using stake_views(3)[OF assms(2) s1, of u] unstake_views(3)[OF a1 s2, of u] assms(6) by simp
  ultimately show ?thesis using s1 s2 by blast
qed

theorem stake_unstake_roundtrip_witness:
  "hasClaimed demo_claimed 7 \<and> allocated demo_claimed \<and> (250::uint64) \<le> liquid demo_claimed 7
   \<and> lastAccrualTimestamp demo_claimed 7 \<le> 20 \<and> (20::nat) \<le> 30 \<and> (30::nat) < 2 ^ 256
   \<and> (\<exists>s1 s2. stake 7 20 \<lparr>ext_plain = 250, proof_ok = True\<rparr> demo_claimed = Inr s1
         \<and> unstake 7 30 \<lparr>ext_plain = 250, proof_ok = True\<rparr> s1 = Inr s2
         \<and> liquid s2 7 = 1000 \<and> staked s2 7 = 0)"
  using stake_unstake_roundtrip[of demo_claimed 7 "\<lparr>ext_plain = 250, proof_ok = True\<rparr>"
      "\<lparr>ext_plain = 250, proof_ok = True\<rparr>" 20 30]
  by (simp add: demo_claimed_facts)

text \<open>
  C8. No underflow error. On a claimed account \<^verbatim>\<open>stake\<close> and \<^verbatim>\<open>unstake\<close> succeed for
  every amount with a valid proof, also one larger than the balance it is subtracted
  from: there is no insufficient-funds check. The balance that was subtracted from takes
  the value of the 64-bit unsigned subtraction of the library, that is
  \<open>(old - amount) mod 2 ^ 64\<close> under modular wrap-around.
\<close>

theorem no_underflow_error:
  assumes "hasClaimed s u" "allocated s" "proof_ok x" "lastAccrualTimestamp s u \<le> now" "now < 2 ^ 256"
  shows "(\<exists>s'. stake u now x s = Inr s' \<and> liquid s' u = liquid s u - ext_plain x
            \<and> uint (liquid s' u) = (uint (liquid s u) - uint (ext_plain x)) mod 2 ^ 64)
       \<and> (\<exists>s'. unstake u now x s = Inr s' \<and> staked s' u = staked s u - ext_plain x
            \<and> uint (staked s' u) = (uint (staked s u) - uint (ext_plain x)) mod 2 ^ 64)"
proof -
  from settle_ok[OF assms(4,5)] assms(1,3)
  obtain s1 where s1: "stake u now x s = Inr s1" by (auto simp: stake_eq)
  from settle_ok[OF assms(4,5)] assms(1,3)
  obtain s2 where s2: "unstake u now x s = Inr s2" by (auto simp: unstake_eq)
  have l: "liquid s1 u = liquid s u - ext_plain x"
    using stake_views(2)[OF assms(2) s1, of u] by simp
  have k: "staked s2 u = staked s u - ext_plain x"
    using unstake_views(3)[OF assms(2) s2, of u] by simp
  have "uint (liquid s1 u) = (uint (liquid s u) - uint (ext_plain x)) mod 2 ^ 64"
    by (simp add: l uint_word_ariths)
  moreover have "uint (staked s2 u) = (uint (staked s u) - uint (ext_plain x)) mod 2 ^ 64"
    by (simp add: k uint_word_ariths)
  ultimately show ?thesis using s1 s2 l k by blast
qed

theorem no_underflow_error_witness:
  "hasClaimed demo_claimed 7 \<and> allocated demo_claimed \<and> lastAccrualTimestamp demo_claimed 7 \<le> 20
   \<and> (20::nat) < 2 ^ 256 \<and> liquid demo_claimed 7 = 1000 \<and> staked demo_claimed 7 = 0
   \<and> (\<exists>s'. stake 7 20 \<lparr>ext_plain = 5000, proof_ok = True\<rparr> demo_claimed = Inr s'
          \<and> uint (liquid s' 7) = 18446744073709547616)
   \<and> (\<exists>s'. unstake 7 20 \<lparr>ext_plain = 5000, proof_ok = True\<rparr> demo_claimed = Inr s'
          \<and> uint (staked s' 7) = 18446744073709546616)"
  using no_underflow_error[of demo_claimed 7 "\<lparr>ext_plain = 5000, proof_ok = True\<rparr>" 20]
  by (auto simp: demo_claimed_facts)


text \<open>
  C2, as amended. On a claimed account whose pending interest decrypts to \<open>0\<close> and
  whose staked balance decrypts to \<open>S\<close>, \<^verbatim>\<open>claimInterest\<close> called \<open>D \<ge> 1\<close> full
  days after the checkpoint succeeds, adds \<open>(S * D) div 100\<close> to the liquid balance
  with the product taken in 64-bit unsigned arithmetic, leaves the staked balance,
  resets the pending interest to an encryption of \<open>0\<close> and emits
  \<open>InterestClaimed\<close> carrying \<open>D\<close>. The amount added is \<open>floor (S * D / 100)\<close>
  whenever \<open>S * D < 2 ^ 64\<close>.
\<close>

theorem claimInterest_after_days:
  assumes "hasClaimed s u" "allocated s" "pending s u = 0"
    "lastAccrualTimestamp s u \<noteq> 0" "lastAccrualTimestamp s u \<le> now" "now < 2 ^ 256"
    "(now - lastAccrualTimestamp s u) div one_day = D" "1 \<le> D"
  shows "\<exists>s'. claimInterest u now s = Inr s'
           \<and> liquid s' u = liquid s u + (staked s u * of_nat D) div 100
           \<and> staked s' u = staked s u
           \<and> pending s' u = 0
           \<and> events s' = events s @ [InterestClaimed u D]
           \<and> (unat (staked s u) * D < 2 ^ 64 \<longrightarrow>
                (staked s u * of_nat D) div 100 = of_nat (unat (staked s u) * D div 100))"
proof -
  from settle_ok[OF assms(5,6)] assms(1)
  obtain s' where s': "claimInterest u now s = Inr s'" by (auto simp: claimInterest_eq)
  have acc: "accruedInterest s u now = (staked s u * of_nat D) div 100"
    using assms(4,7,8) by (simp add: accruedInterest_def)
  have "liquid s' u = liquid s u + (staked s u * of_nat D) div 100"
    using claimInterest_views(2)[OF assms(2) s', of u] assms(3) by (simp add: acc)
  moreover have "staked s' u = staked s u" by (rule claimInterest_views(3)[OF assms(2) s'])
  moreover have "pending s' u = 0" using claimInterest_views(4)[OF assms(2) s', of u] by simp
  moreover have "events s' = events s @ [InterestClaimed u D]"
    using claimInterest_frame(6)[OF s'] assms(4,7) by simp
  ultimately show ?thesis using s' by (auto simp: word_mul_div_exact)
qed

theorem claimInterest_after_days_witness:
  "hasClaimed demo_staked 7 \<and> allocated demo_staked \<and> pending demo_staked 7 = 0
   \<and> lastAccrualTimestamp demo_staked 7 \<noteq> 0 \<and> lastAccrualTimestamp demo_staked 7 \<le> 259210
   \<and> (259210::nat) < 2 ^ 256 \<and> (259210 - lastAccrualTimestamp demo_staked 7) div one_day = 3
   \<and> (\<exists>s'. claimInterest 7 259210 demo_staked = Inr s' \<and> liquid s' 7 = 515 \<and> staked s' 7 = 500
          \<and> pending s' 7 = 0 \<and> events s' = events demo_staked @ [InterestClaimed 7 3])"
  using claimInterest_after_days[of demo_staked 7 259210 3]
  by (auto simp: demo_staked_facts)

text \<open>
  C2 as stated fails where the product overflows 64 bits. Account \<open>7\<close> holds a staked
  balance of \<open>2 ^ 63\<close> and no pending interest; two full days after its checkpoint
  \<^verbatim>\<open>claimInterest\<close> succeeds and emits \<open>InterestClaimed 7 2\<close>, yet the liquid
  balance is unchanged, whereas \<open>floor (2 ^ 63 * 2 / 100)\<close> is not \<open>0\<close> modulo \<open>2 ^ 64\<close>.
\<close>

theorem claimInterest_overflow_counterexample:
  "hasClaimed demo_large 7 \<and> pending demo_large 7 = 0 \<and> staked demo_large 7 = 9223372036854775808
   \<and> lastAccrualTimestamp demo_large 7 = 10
   \<and> events (transact (ClaimInterest 7 172810) demo_large) = events demo_large @ [InterestClaimed 7 2]
   \<and> liquid (transact (ClaimInterest 7 172810) demo_large) 7 = liquid demo_large 7
   \<and> liquid (transact (ClaimInterest 7 172810) demo_large) 7 \<noteq>
       liquid demo_large 7 + of_nat (unat (staked demo_large 7) * 2 div 100)"
proof -
  have ok: "lastAccrualTimestamp demo_large 7 \<le> 172810" "(172810::nat) < 2 ^ 256"
    by (simp_all add: demo_large_facts)
  from settle_ok[OF ok] demo_large_facts(2)
  obtain s' where s': "claimInterest 7 172810 demo_large = Inr s'" by (auto simp: claimInterest_eq)
  then have t: "transact (ClaimInterest 7 172810) demo_large = s'" by (simp add: transact_def)
  have acc: "accruedInterest demo_large 7 172810 = 0"
    by (simp add: accruedInterest_def demo_large_facts)
  have l: "liquid s' 7 = liquid demo_large 7"
    using claimInterest_views(2)[OF demo_large_facts(1) s', of 7]
    by (simp add: acc demo_large_facts)
  have e: "events s' = events demo_large @ [InterestClaimed 7 2]"
    using claimInterest_frame(6)[OF s'] by (simp add: demo_large_facts)
  show ?thesis by (simp add: t l e demo_large_facts)
qed

text \<open>
  C3. Conservation. In every state reached from deployment by any sequence of calls
  (reverting ones included), for every account that has claimed, the sum of the
  plaintexts of the liquid balance, the staked balance and the pending interest equals
  \<open>INITIAL_GRANT\<close> plus all the interest accrued for that account so far, the sums
  taken in 64-bit unsigned arithmetic.
\<close>

theorem conservation:
  assumes "hasClaimed (run cs (init a)) u"
  shows "liquid (run cs (init a)) u + staked (run cs (init a)) u + pending (run cs (init a)) u
         = INITIAL_GRANT + total_accrued cs (init a) u"
proof -
  have "\<not> hasClaimed (init a) u" by (simp add: init_def)
  with run_total[OF allocated_init assms] show ?thesis by (simp add: total_def)
qed

theorem conservation_witness:
  "hasClaimed (run demo_calls (init 99)) 7
   \<and> liquid (run demo_calls (init 99)) 7 + staked (run demo_calls (init 99)) 7
       + pending (run demo_calls (init 99)) 7 = INITIAL_GRANT + total_accrued demo_calls (init 99) 7
   \<and> total_accrued demo_calls (init 99) 7 = 15"
proof -
  have c: "hasClaimed (run demo_calls (init 99)) 7"
    by (simp add: demo_calls_def run_defs)
  have t: "total_accrued demo_calls (init 99) 7 = 15"
    by (simp add: demo_calls_def run_defs accruedInterest_def view_defs INITIAL_GRANT_def)
  from conservation[OF c] c t show ?thesis by simp
qed


text \<open>
  C5, as amended. The checkpoint \<open>lastAccrualTimestamp\<close> of an account never decreases:
  a successful call in a state reached from deployment leaves every checkpoint at least
  where it was, and sets the caller's checkpoint to the current time, whether or not
  interest was computed. The accrual step \<^verbatim>\<open>_settleRewards\<close> alone, on a checkpoint
  other than \<open>0\<close>, advances it by exactly \<open>elapsedDays * 86400\<close> and returns the state
  unchanged when less than a full day has elapsed. A \<^verbatim>\<open>stake\<close> or \<^verbatim>\<open>unstake\<close> less
  than a full day after the checkpoint leaves the plaintext of the pending interest
  unchanged, and moves the checkpoint to the current time.
\<close>

theorem checkpoint_advance:
  "(exec c (run cs (init a)) = Inr s' \<longrightarrow>
      (\<forall>v. lastAccrualTimestamp (run cs (init a)) v \<le> lastAccrualTimestamp s' v)
      \<and> lastAccrualTimestamp s' (sender c) = timestamp c)
   \<and> (settleRewards u now s = Inr (d, s1) \<and> lastAccrualTimestamp s u \<noteq> 0 \<longrightarrow>
      d = (now - lastAccrualTimestamp s u) div one_day
      \<and> lastAccrualTimestamp s1 u = lastAccrualTimestamp s u + d * one_day
      \<and> (d = 0 \<longrightarrow> s1 = s))
   \<and> (allocated s \<and> lastAccrualTimestamp s u \<noteq> 0
        \<and> (now - lastAccrualTimestamp s u) div one_day = 0
        \<and> (stake u now x s = Inr s2 \<or> unstake u now x s = Inr s2) \<longrightarrow>
      pending s2 u = pending s u \<and> lastAccrualTimestamp s2 u = now)"
proof (intro conjI impI)
  assume e: "exec c (run cs (init a)) = Inr s'"
  have z: "\<forall>v. \<not> hasClaimed (init a) v \<longrightarrow> lastAccrualTimestamp (init a) v = 0"
    by (simp add: init_def)
  have "\<not> hasClaimed (run cs (init a)) (sender c) \<longrightarrow>
          lastAccrualTimestamp (run cs (init a)) (sender c) = 0"
    using run_unclaimed[OF z] by blast
  then show "\<forall>v. lastAccrualTimestamp (run cs (init a)) v \<le> lastAccrualTimestamp s' v"
    using exec_monotone[OF e] by blast
  show "lastAccrualTimestamp s' (sender c) = timestamp c"
    using exec_timestamps(1)[OF e, of "sender c"] by simp
next
  assume h: "settleRewards u now s = Inr (d, s1) \<and> lastAccrualTimestamp s u \<noteq> 0"
  then have c: "settleRewards u now s = Inr (d, s1)" and n: "lastAccrualTimestamp s u \<noteq> 0"
    by simp_all
  show "d = (now - lastAccrualTimestamp s u) div one_day"
    using settle_frame(5)[OF c] n by simp
  show "lastAccrualTimestamp s1 u = lastAccrualTimestamp s u + d * one_day"
    using settle_frame(4)[OF c, of u] n by simp
  show "d = 0 \<Longrightarrow> s1 = s" using settle_cases[OF c] n by auto
next
  assume h: "allocated s \<and> lastAccrualTimestamp s u \<noteq> 0
        \<and> (now - lastAccrualTimestamp s u) div one_day = 0
        \<and> (stake u now x s = Inr s2 \<or> unstake u now x s = Inr s2)"
  then have acc: "accruedInterest s u now = 0" by (simp add: accruedInterest_def)
  from h have a: "allocated s" by simp
  from h consider (st) "stake u now x s = Inr s2" | (un) "unstake u now x s = Inr s2" by blast
  then have "pending s2 u = pending s u \<and> lastAccrualTimestamp s2 u = now"
  proof cases
    case st
    from stake_views(4)[OF a st, of u] stake_frame(3)[OF st, of u] show ?thesis by (simp add: acc)
  next
    case un
    from unstake_views(4)[OF a un, of u] unstake_frame(3)[OF un, of u] show ?thesis by (simp add: acc)
  qed
  then show "pending s2 u = pending s u" "lastAccrualTimestamp s2 u = now" by simp_all
qed

theorem checkpoint_advance_witness:
  "exec (Stake 7 129610 \<lparr>ext_plain = 100, proof_ok = True\<rparr>) (run [ClaimInitial 7 10] (init 99))
     = Inr (transact (Stake 7 129610 \<lparr>ext_plain = 100, proof_ok = True\<rparr>) demo_claimed)
   \<and> lastAccrualTimestamp (transact (Stake 7 129610 \<lparr>ext_plain = 100, proof_ok = True\<rparr>) demo_claimed) 7
     = 129610
   \<and> settleRewards 7 259210 demo_staked = Inr (3, snd (projr (settleRewards 7 259210 demo_staked)))
   \<and> lastAccrualTimestamp demo_staked 7 \<noteq> 0
   \<and> lastAccrualTimestamp (snd (projr (settleRewards 7 259210 demo_staked))) 7 = 259210
   \<and> allocated demo_staked \<and> (43210 - lastAccrualTimestamp demo_staked 7) div one_day = 0
   \<and> stake 7 43210 \<lparr>ext_plain = 100, proof_ok = True\<rparr> demo_staked
       = Inr (transact (Stake 7 43210 \<lparr>ext_plain = 100, proof_ok = True\<rparr>) demo_staked)
   \<and> pending (transact (Stake 7 43210 \<lparr>ext_plain = 100, proof_ok = True\<rparr>) demo_staked) 7
       = pending demo_staked 7
   \<and> lastAccrualTimestamp (transact (Stake 7 43210 \<lparr>ext_plain = 100, proof_ok = True\<rparr>) demo_staked) 7
       = 43210"
proof -
  have e1: "exec (Stake 7 129610 \<lparr>ext_plain = 100, proof_ok = True\<rparr>) (run [ClaimInitial 7 10] (init 99))
     = Inr (transact (Stake 7 129610 \<lparr>ext_plain = 100, proof_ok = True\<rparr>) demo_claimed)"
    by (simp add: demo_claimed_def run_defs)
  have e2: "settleRewards 7 259210 demo_staked = Inr (3, snd (projr (settleRewards 7 259210 demo_staked)))"
    using settle_ok[of demo_staked 7 259210] by (auto simp: demo_staked_facts)
  have e3: "stake 7 43210 \<lparr>ext_plain = 100, proof_ok = True\<rparr> demo_staked
       = Inr (transact (Stake 7 43210 \<lparr>ext_plain = 100, proof_ok = True\<rparr>) demo_staked)"
    using settle_ok[of demo_staked 7 43210]
    by (auto simp: demo_staked_facts stake_eq transact_def)
  have n: "lastAccrualTimestamp demo_staked 7 \<noteq> 0" "allocated demo_staked"
    "(43210 - lastAccrualTimestamp demo_staked 7) div one_day = 0"
    by (simp_all add: demo_staked_facts)
  show ?thesis
    using checkpoint_advance[where c = "Stake 7 129610 \<lparr>ext_plain = 100, proof_ok = True\<rparr>"
        and cs = "[ClaimInitial 7 10]" and a = 99
        and s' = "transact (Stake 7 129610 \<lparr>ext_plain = 100, proof_ok = True\<rparr>) demo_claimed"
        and u = 7 and now = 259210 and s = demo_staked and d = 3
        and ?s1.0 = "snd (projr (settleRewards 7 259210 demo_staked))"]
      checkpoint_advance[where u = 7 and now = 43210 and s = demo_staked
        and x = "\<lparr>ext_plain = 100, proof_ok = True\<rparr>"
        and ?s2.0 = "transact (Stake 7 43210 \<lparr>ext_plain = 100, proof_ok = True\<rparr>) demo_staked"]
      e1 e2 e3 n
    by (simp add: demo_staked_facts)
qed

text \<open>
  C5 as stated fails. Account \<open>7\<close> claimed at time \<open>10\<close>. A stake one and a half days
  later computes interest for one elapsed day, yet moves the checkpoint by \<open>129600\<close>
  seconds, which is neither \<open>1 * 86400\<close> nor any whole number of days. A stake twelve
  hours after the checkpoint, when no full day has elapsed, moves the checkpoint from
  \<open>10\<close> to \<open>43210\<close>.
\<close>

theorem checkpoint_advance_counterexample:
  "lastAccrualTimestamp demo_claimed 7 = 10
   \<and> map_sum id fst (settleRewards 7 129610 demo_claimed) = Inr 1
   \<and> lastAccrualTimestamp (transact (Stake 7 129610 \<lparr>ext_plain = 100, proof_ok = True\<rparr>) demo_claimed) 7
       = 129610
   \<and> 129610 - 10 \<noteq> 1 * one_day \<and> \<not> one_day dvd (129610 - 10)
   \<and> (43210 - lastAccrualTimestamp demo_claimed 7) div one_day = 0
   \<and> lastAccrualTimestamp (transact (Stake 7 43210 \<lparr>ext_plain = 100, proof_ok = True\<rparr>) demo_claimed) 7
       = 43210"
  by (simp add: demo_claimed_def run_defs)


text \<open>
  C9, as amended. Every handle written into account state (by \<^verbatim>\<open>claimInitial\<close>,
  \<^verbatim>\<open>stake\<close>, \<^verbatim>\<open>unstake\<close>, \<^verbatim>\<open>claimInterest\<close> or the accrual step) is granted right
  after it is stored, within the same call: what a successful call appends to the log is
  a sequence of writes into the caller's storage, each followed at once by the grant of
  the written handle to the contract and then to the caller, and nothing else; the
  grants after the call are those before it and these; a stored handle that changed was
  written by the call. Hence, in every state reached from deployment, every handle held
  by a claimed account is granted to the contract and to the account owner, and a
  principal other than the contract is granted a handle only if that handle was written
  into its own account. The statement about a call holds from every state, whatever
  handle the library returns: it does not rely on handles being fresh, and it does not
  say that a handle held by several accounts is granted to two principals only.
\<close>

theorem grants_follow_storage:
  "(exec c s = Inr s' \<longrightarrow>
      effects s' = effects s @ call_log s s'
      \<and> stored_then_granted (this_address s) (sender c) (call_log s s')
      \<and> (\<forall>h. acl s' h = acl s h \<union> {p. Granted h p \<in> set (call_log s s')})
      \<and> (\<forall>v. (liquidBalances s' v = liquidBalances s v
                 \<or> Stored v (liquidBalances s' v) \<in> set (call_log s s'))
             \<and> (stakedBalances s' v = stakedBalances s v
                 \<or> Stored v (stakedBalances s' v) \<in> set (call_log s s'))
             \<and> (pendingInterest s' v = pendingInterest s v
                 \<or> Stored v (pendingInterest s' v) \<in> set (call_log s s'))))
   \<and> (\<forall>u. hasClaimed (run cs (init a)) u \<longrightarrow>
        a \<in> acl (run cs (init a)) (liquidBalances (run cs (init a)) u)
        \<and> u \<in> acl (run cs (init a)) (liquidBalances (run cs (init a)) u)
        \<and> a \<in> acl (run cs (init a)) (stakedBalances (run cs (init a)) u)
        \<and> u \<in> acl (run cs (init a)) (stakedBalances (run cs (init a)) u)
        \<and> a \<in> acl (run cs (init a)) (pendingInterest (run cs (init a)) u)
        \<and> u \<in> acl (run cs (init a)) (pendingInterest (run cs (init a)) u))
   \<and> (\<forall>h p. p \<in> acl (run cs (init a)) h \<longrightarrow>
        p = a \<or> Stored p h \<in> set (effects (run cs (init a))))"
proof (intro conjI impI)
  assume e: "exec c s = Inr s'"
  from exec_grants[OF e] obtain es where st: "grants_step (sender c) es s s'" by blast
  note l = grants_step_log[OF st]
  from st show "effects s' = effects s @ call_log s s'"
    "stored_then_granted (this_address s) (sender c) (call_log s s')"
    "\<forall>h. acl s' h = acl s h \<union> {p. Granted h p \<in> set (call_log s s')}"
    "\<forall>v. (liquidBalances s' v = liquidBalances s v
                 \<or> Stored v (liquidBalances s' v) \<in> set (call_log s s'))
             \<and> (stakedBalances s' v = stakedBalances s v
                 \<or> Stored v (stakedBalances s' v) \<in> set (call_log s s'))
             \<and> (pendingInterest s' v = pendingInterest s v
                 \<or> Stored v (pendingInterest s' v) \<in> set (call_log s s'))"
    by (simp_all add: l grants_step_def)
next
  have t: "this_address (init a) = a" by (simp add: init_def)
  from owners_granted_run[OF owners_granted_init, of cs a]
  have o: "owners_granted (run cs (init a))" and ta: "this_address (run cs (init a)) = a"
    by (simp_all add: t)
  from o show "\<forall>u. hasClaimed (run cs (init a)) u \<longrightarrow>
        a \<in> acl (run cs (init a)) (liquidBalances (run cs (init a)) u)
        \<and> u \<in> acl (run cs (init a)) (liquidBalances (run cs (init a)) u)
        \<and> a \<in> acl (run cs (init a)) (stakedBalances (run cs (init a)) u)
        \<and> u \<in> acl (run cs (init a)) (stakedBalances (run cs (init a)) u)
        \<and> a \<in> acl (run cs (init a)) (pendingInterest (run cs (init a)) u)
        \<and> u \<in> acl (run cs (init a)) (pendingInterest (run cs (init a)) u)"
    by (simp add: owners_granted_def ta)
  from o show "\<forall>h p. p \<in> acl (run cs (init a)) h \<longrightarrow>
        p = a \<or> Stored p h \<in> set (effects (run cs (init a)))"
    by (simp add: owners_granted_def ta)
qed

theorem grants_follow_storage_witness:
  "exec (ClaimInitial 8 20) demo_claimed = Inr (transact (ClaimInitial 8 20) demo_claimed)
   \<and> call_log demo_claimed (transact (ClaimInitial 8 20) demo_claimed) =
       [Stored 8 3, Granted 3 99, Granted 3 8, Stored 8 4, Granted 4 99, Granted 4 8,
        Stored 8 4, Granted 4 99, Granted 4 8]
   \<and> stored_then_granted 99 8 (call_log demo_claimed (transact (ClaimInitial 8 20) demo_claimed))
   \<and> hasClaimed (run demo_calls (init 99)) 7
   \<and> 99 \<in> acl (run demo_calls (init 99)) (liquidBalances (run demo_calls (init 99)) 7)
   \<and> 7 \<in> acl (run demo_calls (init 99)) (liquidBalances (run demo_calls (init 99)) 7)
   \<and> 99 \<in> acl (run demo_calls (init 99)) (stakedBalances (run demo_calls (init 99)) 7)
   \<and> 7 \<in> acl (run demo_calls (init 99)) (stakedBalances (run demo_calls (init 99)) 7)
   \<and> 99 \<in> acl (run demo_calls (init 99)) (pendingInterest (run demo_calls (init 99)) 7)
   \<and> 7 \<in> acl (run demo_calls (init 99)) (pendingInterest (run demo_calls (init 99)) 7)
   \<and> Stored 7 (liquidBalances (run demo_calls (init 99)) 7) \<in> set (effects (run demo_calls (init 99)))"
proof -
  have e: "exec (ClaimInitial 8 20) demo_claimed = Inr (transact (ClaimInitial 8 20) demo_claimed)"
    by (simp add: demo_claimed_def run_defs)
  have l: "call_log demo_claimed (transact (ClaimInitial 8 20) demo_claimed) =
       [Stored 8 3, Granted 3 99, Granted 3 8, Stored 8 4, Granted 4 99, Granted 4 8,
        Stored 8 4, Granted 4 99, Granted 4 8]"
    by (simp add: call_log_def demo_claimed_def run_defs)
  have t: "this_address demo_claimed = 99" by (simp add: demo_claimed_def run_defs)
  have c: "hasClaimed (run demo_calls (init 99)) 7"
    by (simp add: demo_calls_def run_defs)
  note th = grants_follow_storage[where c = "ClaimInitial 8 20" and s = demo_claimed
      and s' = "transact (ClaimInitial 8 20) demo_claimed" and cs = demo_calls and a = 99]
  from th e have g: "stored_then_granted 99 8
      (call_log demo_claimed (transact (ClaimInitial 8 20) demo_claimed))"
    by (simp add: t)
  from th c have m:
    "99 \<in> acl (run demo_calls (init 99)) (liquidBalances (run demo_calls (init 99)) 7)"
    "7 \<in> acl (run demo_calls (init 99)) (liquidBalances (run demo_calls (init 99)) 7)"
    "99 \<in> acl (run demo_calls (init 99)) (stakedBalances (run demo_calls (init 99)) 7)"
    "7 \<in> acl (run demo_calls (init 99)) (stakedBalances (run demo_calls (init 99)) 7)"
    "99 \<in> acl (run demo_calls (init 99)) (pendingInterest (run demo_calls (init 99)) 7)"
    "7 \<in> acl (run demo_calls (init 99)) (pendingInterest (run demo_calls (init 99)) 7)"
    by blast+
  from th m(2) have
    "(7::nat) = 99 \<or> Stored 7 (liquidBalances (run demo_calls (init 99)) 7)
        \<in> set (effects (run demo_calls (init 99)))" by blast
  then have w: "Stored 7 (liquidBalances (run demo_calls (init 99)) 7)
        \<in> set (effects (run demo_calls (init 99)))" by simp
  from e l g c m w show ?thesis by simp
qed

text \<open>
  An instance with a shared handle. In \<open>demo_shared\<close> the library returns, for the
  constants of the next claim, the handles that account \<open>7\<close> already holds. After the
  claim of account \<open>8\<close> both accounts hold the same handle for their liquid balance; it
  is granted to the contract and to both owners, and the writes and grants of the call
  are in the order stated above.
\<close>

lemma shared_handle_grants:
  "liquidBalances (transact (ClaimInitial 8 20) demo_shared) 8
     = liquidBalances (transact (ClaimInitial 8 20) demo_shared) 7
   \<and> acl (transact (ClaimInitial 8 20) demo_shared)
         (liquidBalances (transact (ClaimInitial 8 20) demo_shared) 7) = {7, 8, 99}
   \<and> liquid (transact (ClaimInitial 8 20) demo_shared) 7 = 1000
   \<and> liquid (transact (ClaimInitial 8 20) demo_shared) 8 = 1000
   \<and> stored_then_granted 99 8 (call_log demo_shared (transact (ClaimInitial 8 20) demo_shared))"
  by (auto simp: demo_shared_def demo_claimed_def call_log_def run_defs view_defs INITIAL_GRANT_def)

text \<open>
  C9 as stated fails on the order of the two steps. In \<^verbatim>\<open>claimInitial\<close> the handle of
  the grant is written into \<open>liquidBalances\<close> before \<^verbatim>\<open>_allowValue\<close> is called on it:
  at the moment of storage it carries no grant for the owner. The other functions follow
  the same order.
\<close>

theorem grants_at_storage_counterexample:
  "effects (transact (ClaimInitial 7 10) (init 99)) =
     [Stored 7 1, Granted 1 99, Granted 1 7, Stored 7 2, Granted 2 99, Granted 2 7,
      Stored 7 2, Granted 2 99, Granted 2 7]
   \<and> \<not> granted_when_stored 99 (acl (init 99)) (effects (transact (ClaimInitial 7 10) (init 99)))"
  by (simp add: run_defs)

text \<open>
  C10. If every block timestamp is positive then, in every state reached from
  deployment, an account has claimed if and only if its checkpoint is positive. So
  whenever a caller passes the \<open>hasClaimed\<close> guard of \<^verbatim>\<open>stake\<close>, \<^verbatim>\<open>unstake\<close> or
  \<^verbatim>\<open>claimInterest\<close>, the test \<open>lastTimestamp = 0\<close> of \<^verbatim>\<open>_settleRewards\<close> is false,
  and a settlement that returns does so through its other two branches: it reports
  the elapsed days and advances the checkpoint by that many days.
\<close>

theorem claimed_iff_checkpointed:
  assumes "\<forall>c\<in>set cs. 0 < timestamp c"
  shows "(hasClaimed (run cs (init a)) u \<longleftrightarrow> 0 < lastAccrualTimestamp (run cs (init a)) u)
    \<and> (hasClaimed (run cs (init a)) u \<longrightarrow>
         lastAccrualTimestamp (run cs (init a)) u \<noteq> 0
         \<and> (\<forall>now d s1. settleRewards u now (run cs (init a)) = Inr (d, s1) \<longrightarrow>
               d = (now - lastAccrualTimestamp (run cs (init a)) u) div one_day
               \<and> lastAccrualTimestamp s1 u = lastAccrualTimestamp (run cs (init a)) u + d * one_day))"
proof -
  have z: "\<forall>v. hasClaimed (init a) v \<longleftrightarrow> 0 < lastAccrualTimestamp (init a) v"
    by (simp add: init_def)
  note iff = run_claimed_iff[OF assms z, of u]
  show ?thesis
  proof (intro conjI impI allI)
    show "hasClaimed (run cs (init a)) u \<longleftrightarrow> 0 < lastAccrualTimestamp (run cs (init a)) u"
      by (rule iff)
  next
    assume "hasClaimed (run cs (init a)) u"
    with iff show "lastAccrualTimestamp (run cs (init a)) u \<noteq> 0" by simp
  next
    fix now d s1
    assume c: "hasClaimed (run cs (init a)) u"
      and e: "settleRewards u now (run cs (init a)) = Inr (d, s1)"
    from c iff have n: "lastAccrualTimestamp (run cs (init a)) u \<noteq> 0" by simp
    show "d = (now - lastAccrualTimestamp (run cs (init a)) u) div one_day"
      using settle_frame(5)[OF e] n by simp
    show "lastAccrualTimestamp s1 u = lastAccrualTimestamp (run cs (init a)) u + d * one_day"
      using settle_frame(4)[OF e, of u] n by simp
  qed
qed

theorem claimed_iff_checkpointed_witness:
  "hasClaimed (run demo_calls (init 99)) 7
   \<and> 0 < lastAccrualTimestamp (run demo_calls (init 99)) 7
   \<and> \<not> hasClaimed (run demo_calls (init 99)) 8
   \<and> lastAccrualTimestamp (run demo_calls (init 99)) 8 = 0"
proof -
  have p: "\<forall>c\<in>set demo_calls. 0 < timestamp c" by (simp add: demo_calls_def)
  have c: "hasClaimed (run demo_calls (init 99)) 7" "\<not> hasClaimed (run demo_calls (init 99)) 8"
    by (simp_all add: demo_calls_def run_defs)
  from claimed_iff_checkpointed[OF p, of 99 7] claimed_iff_checkpointed[OF p, of 99 8] c
  show ?thesis by simp
qed

end
